theory Spec2Isabelle
  imports Complex_Main "HOL-Library.Word" "HOL-Library.Signed_Division" "HOL-Library.Monad_Syntax"
begin

section \<open>Pixel buffers and C memory accesses\<close>

text \<open>
  The C program \<^verbatim>\<open>image_processing.c\<close> keeps an image as
  \<^verbatim>\<open>struct { int width, height; unsigned char *data; }\<close>.
  The buffer is a list of bytes. C \<^verbatim>\<open>int\<close>s are modelled as \<^typ>\<open>int\<close>. The size
  expression \<^verbatim>\<open>3 * w * h\<close> is computed with an overflow check (\<open>size3\<close>); for a buffer
  of valid shape every other \<^verbatim>\<open>int\<close> that the filters compute is an index below that
  size or a sum of nine weighted bytes, and stays in range (\<open>idx_bounds\<close>,
  \<open>window_sum_bounds\<close>, \<open>sobel_sums_fit_int\<close> below).
  A result of \<open>None\<close> stands for undefined behaviour of the C program: signed overflow,
  a failed allocation that is then dereferenced, or an access outside a buffer.
\<close>

type_synonym u8 = "8 word"

record Image =
  width :: int
  height :: int
  data :: "u8 list"

definition MAX_COLOR :: int where
  "MAX_COLOR = 255"

definition int_ok :: "int \<Rightarrow> bool" where
  "int_ok v \<longleftrightarrow> - 2147483648 \<le> v \<and> v \<le> 2147483647"

definition imul :: "int \<Rightarrow> int \<Rightarrow> int option" where
  "imul a b = (if int_ok (a * b) then Some (a * b) else None)"

text \<open>The expression \<^verbatim>\<open>3 * w * h\<close>, evaluated left to right.\<close>

definition size3 :: "int \<Rightarrow> int \<Rightarrow> int option" where
  "size3 w h = do { a \<leftarrow> imul 3 w; imul a h }"

text \<open>
  \<^verbatim>\<open>malloc(n)\<close> returns a block of \<open>n\<close> bytes whose contents are indeterminate: the
  contents are the parameter \<open>junk\<close> (byte \<open>i\<close> of the block is \<open>junk i\<close>). A negative
  \<open>n\<close> converts to a huge \<^verbatim>\<open>size_t\<close>, the allocation fails and the program goes on to
  use the null pointer. Running out of memory for a size in range is not modelled.
\<close>

definition malloc :: "int \<Rightarrow> (nat \<Rightarrow> u8) \<Rightarrow> u8 list option" where
  "malloc n junk = (if 0 \<le> n then Some (map junk [0..<nat n]) else None)"

text \<open>\<^verbatim>\<open>memcpy(dst, src, n)\<close>: the first \<open>n\<close> bytes of \<open>dst\<close> are replaced.\<close>

definition memcpy :: "u8 list \<Rightarrow> u8 list \<Rightarrow> int \<Rightarrow> u8 list option" where
  "memcpy dst src n =
     (if 0 \<le> n \<and> nat n \<le> length dst \<and> nat n \<le> length src
      then Some (take (nat n) src @ drop (nat n) dst) else None)"

text \<open>Reading \<^verbatim>\<open>buf[idx]\<close> (promoted to \<^verbatim>\<open>int\<close>) and writing \<^verbatim>\<open>buf[idx] = v\<close>
  (converted to \<^verbatim>\<open>unsigned char\<close>, that is modulo 256).\<close>

definition rd :: "u8 list \<Rightarrow> int \<Rightarrow> int option" where
  "rd buf idx = (if 0 \<le> idx \<and> idx < int (length buf) then Some (uint (buf ! nat idx)) else None)"

definition wr :: "u8 list \<Rightarrow> int \<Rightarrow> int \<Rightarrow> u8 list option" where
  "wr buf idx v =
     (if 0 \<le> idx \<and> idx < int (length buf) then Some (buf[nat idx := word_of_int v]) else None)"

text \<open>C's \<^verbatim>\<open>/\<close> on \<^verbatim>\<open>int\<close> truncates towards zero; dividing by zero is undefined.\<close>

definition cdiv :: "int \<Rightarrow> int \<Rightarrow> int option" where
  "cdiv a b = (if b = 0 then None else Some (a sdiv b))"

section \<open>Loops\<close>

text \<open>A \<^verbatim>\<open>for\<close> loop over a list of index values, threading the state; it stops at
  the first undefined step.\<close>

fun for_each :: "('a \<Rightarrow> 's \<Rightarrow> 's option) \<Rightarrow> 'a list \<Rightarrow> 's \<Rightarrow> 's option" where
  "for_each body [] s = Some s"
| "for_each body (i # rest) s =
     (case body i s of None \<Rightarrow> None | Some s' \<Rightarrow> for_each body rest s')"

text \<open>\<^verbatim>\<open>for (dy = -1; dy <= 1; dy++) for (dx = -1; dx <= 1; dx++)\<close>\<close>

definition window :: "(int \<times> int) list" where
  "window = [(dy, dx). dy \<leftarrow> [-1, 0, 1], dx \<leftarrow> [-1, 0, 1]]"

text \<open>\<^verbatim>\<open>for (y = 1; y < h - 1; y++) for (x = 1; x < w - 1; x++)\<close>, in sequential order.\<close>

definition interior :: "int \<Rightarrow> int \<Rightarrow> (int \<times> int) list" where
  "interior w h = [(y, x). y \<leftarrow> [1..h - 2], x \<leftarrow> [1..w - 2]]"

text \<open>
  \<^verbatim>\<open>#pragma omp parallel for collapse(2) schedule(dynamic) if(use_openmp)\<close>:
  with \<^verbatim>\<open>use_openmp == 0\<close> the collapsed loop runs in sequential order. Otherwise the
  runtime hands the iterations out to the threads; a run is modelled by the order
  \<open>sched\<close> in which the iterations take effect, each iteration exactly once. Interleaving
  inside an iteration is not modelled.
\<close>

definition is_schedule :: "int \<Rightarrow> int \<Rightarrow> (int \<times> int) list \<Rightarrow> bool" where
  "is_schedule w h sched \<longleftrightarrow> distinct sched \<and> set sched = set (interior w h)"

definition omp_for :: "int \<Rightarrow> (int \<times> int) list \<Rightarrow> int \<Rightarrow> int \<Rightarrow> (int \<times> int) list" where
  "omp_for use_openmp sched w h = (if use_openmp \<noteq> 0 then sched else interior w h)"

section \<open>The blur filter\<close>

fun blur_acc ::
  "Image \<Rightarrow> int \<Rightarrow> int \<Rightarrow> int \<times> int \<Rightarrow> int \<times> int \<times> int \<times> int \<Rightarrow> (int \<times> int \<times> int \<times> int) option"
where
  "blur_acc img y x (dy, dx) (sumR, sumG, sumB, count) =
     (let idx = 3 * ((y + dy) * width img + (x + dx)) in
      do {
        r \<leftarrow> rd (data img) idx;
        g \<leftarrow> rd (data img) (idx + 1);
        b \<leftarrow> rd (data img) (idx + 2);
        Some (sumR + r, sumG + g, sumB + b, count + 1)
      })"

fun blur_pixel :: "Image \<Rightarrow> int \<times> int \<Rightarrow> u8 list \<Rightarrow> u8 list option" where
  "blur_pixel img (y, x) temp =
     do {
       (sumR, sumG, sumB, count) \<leftarrow> for_each (blur_acc img y x) window (0, 0, 0, 0);
       let idx = 3 * (y * width img + x);
       vR \<leftarrow> cdiv sumR count;
       t1 \<leftarrow> wr temp idx vR;
       vG \<leftarrow> cdiv sumG count;
       t2 \<leftarrow> wr t1 (idx + 1) vG;
       vB \<leftarrow> cdiv sumB count;
       wr t2 (idx + 2) vB
     }"

definition applyBlur :: "Image \<Rightarrow> int \<Rightarrow> (int \<times> int) list \<Rightarrow> (nat \<Rightarrow> u8) \<Rightarrow> Image option" where
  "applyBlur img use_openmp sched junk =
     (let w = width img; h = height img in
      do {
        n \<leftarrow> size3 w h;
        temp \<leftarrow> malloc n junk;
        temp' \<leftarrow> for_each (blur_pixel img) (omp_for use_openmp sched w h) temp;
        d \<leftarrow> memcpy (data img) temp' n;
        Some (img\<lparr>data := d\<rparr>)
      })"

section \<open>The edge detection filter\<close>

definition Gx :: "int list list" where
  "Gx = [[-1, 0, 1], [-2, 0, 2], [-1, 0, 1]]"

definition Gy :: "int list list" where
  "Gy = [[-1, -2, -1], [0, 0, 0], [1, 2, 1]]"

text \<open>
  \<^verbatim>\<open>fmin(sqrt(sx * sx + sy * sy), 255)\<close> assigned to an \<^verbatim>\<open>unsigned char\<close>: the
  \<^verbatim>\<open>int\<close> argument converts to \<^verbatim>\<open>double\<close> exactly, and the conversion of the
  \<^verbatim>\<open>double\<close> result to an integer type truncates. Doubles are modelled as reals: the
  argument is an integer below \<open>2 ^ 22\<close>, for which a correctly rounded square root
  cannot reach the next integer.
\<close>

definition magnitude :: "int \<Rightarrow> int \<Rightarrow> int" where
  "magnitude sx sy = \<lfloor>min (sqrt (of_int (sx * sx + sy * sy))) 255\<rfloor>"

fun sobel_acc ::
  "Image \<Rightarrow> int \<Rightarrow> int \<Rightarrow> int \<times> int \<Rightarrow> (int \<times> int \<times> int) \<times> (int \<times> int \<times> int) \<Rightarrow>
     ((int \<times> int \<times> int) \<times> (int \<times> int \<times> int)) option"
where
  "sobel_acc img y x (dy, dx) ((sumRx, sumGx, sumBx), (sumRy, sumGy, sumBy)) =
     (let idx = 3 * ((y + dy) * width img + (x + dx));
          weightX = Gx ! nat (dy + 1) ! nat (dx + 1);
          weightY = Gy ! nat (dy + 1) ! nat (dx + 1) in
      do {
        r \<leftarrow> rd (data img) idx;
        g \<leftarrow> rd (data img) (idx + 1);
        b \<leftarrow> rd (data img) (idx + 2);
        Some ((sumRx + r * weightX, sumGx + g * weightX, sumBx + b * weightX),
              (sumRy + r * weightY, sumGy + g * weightY, sumBy + b * weightY))
      })"

fun sobel_pixel :: "Image \<Rightarrow> int \<times> int \<Rightarrow> u8 list \<Rightarrow> u8 list option" where
  "sobel_pixel img (y, x) temp =
     do {
       ((sumRx, sumGx, sumBx), (sumRy, sumGy, sumBy)) \<leftarrow>
         for_each (sobel_acc img y x) window ((0, 0, 0), (0, 0, 0));
       let idx = 3 * (y * width img + x);
       t1 \<leftarrow> wr temp idx (magnitude sumRx sumRy);
       t2 \<leftarrow> wr t1 (idx + 1) (magnitude sumGx sumGy);
       wr t2 (idx + 2) (magnitude sumBx sumBy)
     }"

definition applyEdgeDetection ::
  "Image \<Rightarrow> int \<Rightarrow> (int \<times> int) list \<Rightarrow> (nat \<Rightarrow> u8) \<Rightarrow> Image option" where
  "applyEdgeDetection img use_openmp sched junk =
     (let w = width img; h = height img in
      do {
        n \<leftarrow> size3 w h;
        temp \<leftarrow> malloc n junk;
        temp' \<leftarrow> for_each (sobel_pixel img) (omp_for use_openmp sched w h) temp;
        d \<leftarrow> memcpy (data img) temp' n;
        Some (img\<lparr>data := d\<rparr>)
      })"

section \<open>Files and the driver\<close>

text \<open>
  The contents of a PPM file, as the directives of
  \<^verbatim>\<open>fscanf(fp, "%s\n%d %d\n%d\n", format, &w, &h, &maxColor)\<close> split it: the first
  token (a run of characters without white space, of any length), the three decimal
  numbers as the file declares them (of any size), and the bytes at which \<^verbatim>\<open>fread\<close>
  then starts (the last directive of the format skips white space after the header).
  An empty \<open>format\<close> stands for a file without a token. A file that \<^verbatim>\<open>writePPM\<close>
  writes is recorded the same way, by the header fields that \<^verbatim>\<open>fprintf\<close> prints and
  the bytes that \<^verbatim>\<open>fwrite\<close> emits. Headers in which a number is missing or is not
  decimal are not modelled.
\<close>

record ppm_file =
  format :: string
  hdr_width :: int
  hdr_height :: int
  maxColor :: int
  payload :: "u8 list"

text \<open>The files that \<^verbatim>\<open>fopen(name, "rb")\<close> can open, with their contents, and the
  names that \<^verbatim>\<open>fopen(name, "wb")\<close> can open.\<close>

record filesystem =
  files :: "string \<Rightarrow> ppm_file option"
  writable :: "string \<Rightarrow> bool"

text \<open>
  \<^verbatim>\<open>fread(buf, 3, count, fp)\<close> copies up to \<open>3 * count\<close> bytes, as many as the file
  still has, to the front of the buffer; the rest of the buffer keeps its contents.
  \<^verbatim>\<open>fwrite(buf, 3, count, fp)\<close> writes the first \<open>3 * count\<close> bytes of the buffer.
\<close>

definition fread :: "u8 list \<Rightarrow> u8 list \<Rightarrow> int \<Rightarrow> u8 list option" where
  "fread buf src count =
     (if count < 0 then None
      else let k = min (3 * nat count) (length src)
           in if k \<le> length buf then Some (take k src @ drop k buf) else None)"

definition fwrite :: "u8 list \<Rightarrow> int \<Rightarrow> u8 list option" where
  "fwrite buf count =
     (if 0 \<le> count \<and> 3 * nat count \<le> length buf then Some (take (3 * nat count) buf) else None)"

text \<open>
  What \<^verbatim>\<open>fscanf\<close> stores. The conversion \<^verbatim>\<open>%s\<close> has no field width: it copies the
  whole token and a terminating null character into \<^verbatim>\<open>char format[3]\<close>, so a token of
  more than two characters is written past the end of the array. Without a token
  nothing is stored and \<^verbatim>\<open>strcmp\<close> reads the uninitialised array. The conversion
  \<^verbatim>\<open>%d\<close> stores into an \<^verbatim>\<open>int\<close>; a number that an \<^verbatim>\<open>int\<close> cannot represent is
  undefined. A token of at most two characters is what \<^verbatim>\<open>strcmp\<close> then compares
  with \<^verbatim>\<open>"P6"\<close>.
\<close>

definition fscanf_header :: "ppm_file \<Rightarrow> (string \<times> int \<times> int \<times> int) option" where
  "fscanf_header f =
     (if format f \<noteq> [] \<and> length (format f) + 1 \<le> 3
         \<and> int_ok (hdr_width f) \<and> int_ok (hdr_height f) \<and> int_ok (maxColor f)
      then Some (format f, hdr_width f, hdr_height f, maxColor f)
      else None)"

text \<open>\<open>Inl status\<close> is \<^verbatim>\<open>exit(status)\<close>.\<close>

definition readPPM :: "filesystem \<Rightarrow> string \<Rightarrow> (nat \<Rightarrow> u8) \<Rightarrow> (int + Image) option" where
  "readPPM fs filename junk =
     (case files fs filename of
        None \<Rightarrow> Some (Inl 1)
      | Some f \<Rightarrow> do {
          (token, w, h, maxc) \<leftarrow> fscanf_header f;
          if token \<noteq> ''P6'' \<or> maxc \<noteq> MAX_COLOR then Some (Inl 1)
          else do {
            n \<leftarrow> size3 w h;
            buf \<leftarrow> malloc n junk;
            count \<leftarrow> imul w h;
            d \<leftarrow> fread buf (payload f) count;
            Some (Inr \<lparr>width = w, height = h, data = d\<rparr>)
          }
        })"

definition writePPM :: "filesystem \<Rightarrow> string \<Rightarrow> Image \<Rightarrow> (int + filesystem) option" where
  "writePPM fs filename img =
     (if \<not> writable fs filename then Some (Inl 1)
      else do {
        count \<leftarrow> imul (width img) (height img);
        bytes \<leftarrow> fwrite (data img) count;
        Some (Inr (fs\<lparr>files := (files fs)(filename \<mapsto>
          \<lparr>format = ''P6'', hdr_width = width img, hdr_height = height img,
           maxColor = MAX_COLOR, payload = bytes\<rparr>)\<rparr>))
      })"

text \<open>\<^verbatim>\<open>atoi\<close> of the C library: leading white space, an optional sign, decimal
  digits; a value outside \<^verbatim>\<open>int\<close> is undefined.\<close>

definition isspace :: "char \<Rightarrow> bool" where
  "isspace ch \<longleftrightarrow> ch \<in> set [CHR '' '', CHR 0x09, CHR 0x0A, CHR 0x0B, CHR 0x0C, CHR 0x0D]"

definition isdigit :: "char \<Rightarrow> bool" where
  "isdigit ch \<longleftrightarrow> 48 \<le> (of_char ch :: nat) \<and> (of_char ch :: nat) \<le> 57"

fun digits :: "int \<Rightarrow> string \<Rightarrow> int" where
  "digits acc [] = acc"
| "digits acc (ch # rest) =
     (if isdigit ch then digits (acc * 10 + (int (of_char ch) - 48)) rest else acc)"

definition atoi :: "string \<Rightarrow> int option" where
  "atoi s =
     (let t = dropWhile isspace s;
          v = (case t of
                 [] \<Rightarrow> 0
               | ch # rest \<Rightarrow>
                   if ch = CHR ''-'' then - digits 0 rest
                   else if ch = CHR ''+'' then digits 0 rest
                   else digits 0 t)
      in if int_ok v then Some v else None)"

text \<open>
  What a run of the program depends on besides its arguments and the files: the
  contents of the four blocks that \<^verbatim>\<open>malloc\<close> returns (the two image buffers of
  \<^verbatim>\<open>readPPM\<close> and the two scratch buffers of the filter), and the order in which the
  OpenMP runtime runs the iterations of the parallel loop.
\<close>

record runtime =
  alloc1 :: "nat \<Rightarrow> u8"
  alloc2 :: "nat \<Rightarrow> u8"
  alloc3 :: "nat \<Rightarrow> u8"
  alloc4 :: "nat \<Rightarrow> u8"
  schedule :: "(int \<times> int) list"

definition apply_filter ::
  "int \<Rightarrow> Image \<Rightarrow> int \<Rightarrow> (int \<times> int) list \<Rightarrow> (nat \<Rightarrow> u8) \<Rightarrow> Image option" where
  "apply_filter filter_type img use_openmp sched junk =
     (if filter_type = 1 then applyBlur img use_openmp sched junk
      else if filter_type = 2 then applyEdgeDetection img use_openmp sched junk
      else Some img)"

text \<open>
  \<^verbatim>\<open>main\<close>: the exit status and the file system it leaves. \<open>argv\<close> includes the
  program name. The messages on standard output and the timing are not modelled.
\<close>

definition main :: "string list \<Rightarrow> filesystem \<Rightarrow> runtime \<Rightarrow> (int \<times> filesystem) option" where
  "main argv fs rt =
     (if length argv \<noteq> 4 then Some (1, fs)
      else do {
        r1 \<leftarrow> readPPM fs (argv ! 1) (alloc1 rt);
        case r1 of
          Inl status \<Rightarrow> Some (status, fs)
        | Inr img1 \<Rightarrow> do {
            filter_type \<leftarrow> atoi (argv ! 3);
            _ \<leftarrow> apply_filter filter_type img1 0 (schedule rt) (alloc2 rt);
            r2 \<leftarrow> readPPM fs (argv ! 1) (alloc3 rt);
            case r2 of
              Inl status \<Rightarrow> Some (status, fs)
            | Inr img \<Rightarrow> do {
                img' \<leftarrow> apply_filter filter_type img 1 (schedule rt) (alloc4 rt);
                w \<leftarrow> writePPM fs (argv ! 2) img';
                case w of
                  Inl status \<Rightarrow> Some (status, fs)
                | Inr fs' \<Rightarrow> Some (0, fs')
              }
          }
      })"

section \<open>Vocabulary of the verification\<close>

text \<open>
  A buffer of valid shape: at least one pixel each way, \<open>3 * w * h\<close> samples, a size
  that fits an \<^verbatim>\<open>int\<close>. \<open>sample img x y c\<close> is channel \<open>c\<close> of pixel \<open>(x, y)\<close>, at index
  \<open>3 * (y * w + x) + c\<close>. A constant-colour buffer repeats one pixel \<open>(r, g, b)\<close>.
\<close>

definition valid :: "Image \<Rightarrow> bool" where
  "valid img \<longleftrightarrow> 1 \<le> width img \<and> 1 \<le> height img \<and> 3 * width img * height img \<le> 2147483647
     \<and> int (length (data img)) = 3 * width img * height img"

definition sample :: "Image \<Rightarrow> int \<Rightarrow> int \<Rightarrow> int \<Rightarrow> int" where
  "sample img x y c = uint (data img ! nat (3 * (y * width img + x) + c))"

definition constant_color :: "Image \<Rightarrow> u8 \<Rightarrow> u8 \<Rightarrow> u8 \<Rightarrow> bool" where
  "constant_color img r g b \<longleftrightarrow>
     data img = concat (replicate (nat (width img * height img)) [r, g, b])"

text \<open>
  What the specification says an interior pixel becomes. Average: the nine samples of
  the 3x3 neighbourhood summed and divided by 9, truncating. Sobel: the two kernels,
  the convolution \<open>\<Sum> K[dy][dx] * sample (x + dx) (y + dy)\<close> over
  \<open>dx, dy \<in> {-1, 0, 1}\<close>, and \<open>min 255\<close> of the truncated square root of
  \<open>Gx\<^sup>2 + Gy\<^sup>2\<close>.
\<close>

definition spec_average :: "Image \<Rightarrow> int \<Rightarrow> int \<Rightarrow> int \<Rightarrow> int" where
  "spec_average img x y c =
     (\<Sum>dy\<leftarrow>[-1, 0, 1]. \<Sum>dx\<leftarrow>[-1, 0, 1]. sample img (x + dx) (y + dy) c) div 9"

definition spec_Kx :: "int list list" where
  "spec_Kx = [[-1, 0, 1], [-2, 0, 2], [-1, 0, 1]]"

definition spec_Ky :: "int list list" where
  "spec_Ky = [[-1, -2, -1], [0, 0, 0], [1, 2, 1]]"

definition spec_gradient :: "int list list \<Rightarrow> Image \<Rightarrow> int \<Rightarrow> int \<Rightarrow> int \<Rightarrow> int" where
  "spec_gradient K img x y c =
     (\<Sum>dy\<leftarrow>[-1, 0, 1]. \<Sum>dx\<leftarrow>[-1, 0, 1]. K ! nat (dy + 1) ! nat (dx + 1) * sample img (x + dx) (y + dy) c)"

definition spec_sobel :: "Image \<Rightarrow> int \<Rightarrow> int \<Rightarrow> int \<Rightarrow> int" where
  "spec_sobel img x y c =
     min 255 \<lfloor>sqrt (of_int ((spec_gradient spec_Kx img x y c)\<^sup>2 + (spec_gradient spec_Ky img x y c)\<^sup>2))\<rfloor>"

definition spec_energy :: "Image \<Rightarrow> int \<Rightarrow> int \<Rightarrow> int \<Rightarrow> int" where
  "spec_energy img x y c = (spec_gradient spec_Kx img x y c)\<^sup>2 + (spec_gradient spec_Ky img x y c)\<^sup>2"

text \<open>
  Auxiliary notions of the proofs: the three byte updates that one iteration of the
  pixel loop makes, the sums that the inner loops accumulate, and an integer square
  root by search, which makes \<open>magnitude\<close> computable.
\<close>

definition in_image :: "int \<Rightarrow> int \<Rightarrow> int \<times> int \<Rightarrow> bool" where
  "in_image w h p \<longleftrightarrow> (case p of (y, x) \<Rightarrow> 0 \<le> y \<and> y < h \<and> 0 \<le> x \<and> x < w)"

definition put3 :: "int \<Rightarrow> (int \<Rightarrow> int \<Rightarrow> int \<Rightarrow> int) \<Rightarrow> int \<times> int \<Rightarrow> u8 list \<Rightarrow> u8 list" where
  "put3 w f p t =
     (case p of (y, x) \<Rightarrow>
        t[nat (3 * (y * w + x)) := word_of_int (f x y 0),
          nat (3 * (y * w + x) + 1) := word_of_int (f x y 1),
          nat (3 * (y * w + x) + 2) := word_of_int (f x y 2)])"

definition window_sum :: "Image \<Rightarrow> int \<Rightarrow> int \<Rightarrow> int \<Rightarrow> (int \<times> int) list \<Rightarrow> int" where
  "window_sum img x y c ds = (\<Sum>(dy, dx)\<leftarrow>ds. sample img (x + dx) (y + dy) c)"

definition blur_val :: "Image \<Rightarrow> int \<Rightarrow> int \<Rightarrow> int \<Rightarrow> int" where
  "blur_val img x y c = window_sum img x y c window div 9"

definition conv :: "Image \<Rightarrow> int list list \<Rightarrow> int \<Rightarrow> int \<Rightarrow> int \<Rightarrow> (int \<times> int) list \<Rightarrow> int" where
  "conv img K x y c ds = (\<Sum>(dy, dx)\<leftarrow>ds. sample img (x + dx) (y + dy) c * (K ! nat (dy + 1) ! nat (dx + 1)))"

definition sobel_val :: "Image \<Rightarrow> int \<Rightarrow> int \<Rightarrow> int \<Rightarrow> int" where
  "sobel_val img x y c = magnitude (conv img Gx x y c window) (conv img Gy x y c window)"

fun root_upto :: "nat \<Rightarrow> int \<Rightarrow> int" where
  "root_upto 0 n = 0"
| "root_upto (Suc m) n = (if int (Suc m) * int (Suc m) \<le> n then int (Suc m) else root_upto m n)"

declare blur_acc.simps [simp del]

declare sobel_acc.simps [simp del]

section \<open>Index arithmetic and single accesses\<close>

text \<open>
  Indices of pixels of the image lie within the buffer, hence within \<^verbatim>\<open>int\<close> for a
  buffer of valid shape, and distinct samples have distinct indices.
\<close>

lemma idx_bounds:
  fixes x y w h c :: int
  assumes "0 \<le> y" "y < h" "0 \<le> x" "x < w" "0 \<le> c" "c < 3"
  shows "0 \<le> 3 * (y * w + x) + c" and "3 * (y * w + x) + c < 3 * w * h"
proof -
  have w: "0 \<le> w" using assms by simp
  have "0 \<le> y * w" using assms w by simp
  then show "0 \<le> 3 * (y * w + x) + c" using assms by simp
  have "y + 1 \<le> h" using assms by simp
  then have "(y + 1) * w \<le> h * w" using w by (rule mult_right_mono)
  then have "y * w + x + 1 \<le> w * h" using assms by (simp add: algebra_simps)
  then show "3 * (y * w + x) + c < 3 * w * h" using assms by simp
qed

lemma idx_inj:
  fixes x y x' y' w c c' :: int
  assumes "0 \<le> x" "x < w" "0 \<le> x'" "x' < w" "0 \<le> c" "c < 3" "0 \<le> c'" "c' < 3"
    and eq: "3 * (y * w + x) + c = 3 * (y' * w + x') + c'"
  shows "y = y' \<and> x = x' \<and> c = c'"
proof -
  define a a' where "a = y * w + x" and "a' = y' * w + x'"
  have "3 * a + c = 3 * a' + c'" using eq by (simp add: a_def a'_def)
  then have c: "c = c'" and e2: "a = a'" using assms(5-8) by presburger+
  have "x = (y * w + x) mod w" using assms(1,2) by simp
  also have "\<dots> = (y' * w + x') mod w" using e2 by (simp only: a_def a'_def)
  also have "\<dots> = x'" using assms(3,4) by simp
  finally have x: "x = x'" .
  then have "y * w = y' * w" using e2 by (simp add: a_def a'_def)
  then have "y = y'" using assms by simp
  then show ?thesis using c x by simp
qed

lemma rd_sample:
  assumes "valid img" "0 \<le> y" "y < height img" "0 \<le> x" "x < width img" "0 \<le> c" "c < 3"
  shows "rd (data img) (3 * (y * width img + x) + c) = Some (sample img x y c)"
  using idx_bounds [OF assms(2-7)] assms(1)
  by (simp add: rd_def sample_def valid_def)

lemma sample_bounds: "0 \<le> sample img x y c" "sample img x y c \<le> 255"
proof -
  show "0 \<le> sample img x y c" by (simp add: sample_def)
  have "uint (data img ! nat (3 * (y * width img + x) + c)) < 2 ^ LENGTH(8)"
    by (rule uint_lt2p)
  then show "sample img x y c \<le> 255" by (simp add: sample_def)
qed

lemma wr_ok:
  "0 \<le> idx \<Longrightarrow> idx < int (length buf) \<Longrightarrow> wr buf idx v = Some (buf[nat idx := word_of_int v])"
  by (simp add: wr_def)

lemma uint_byte: "0 \<le> v \<Longrightarrow> v \<le> 255 \<Longrightarrow> uint (word_of_int v :: u8) = v"
  by (simp add: uint_word_of_int)

lemma size3_valid:
  assumes "valid img"
  shows "size3 (width img) (height img) = Some (3 * width img * height img)"
proof -
  have w: "1 \<le> width img" and h: "1 \<le> height img"
    and n: "3 * width img * height img \<le> 2147483647"
    using assms by (simp_all add: valid_def)
  have "3 * width img * 1 \<le> 3 * width img * height img"
    using w h by (intro mult_left_mono) simp_all
  then have a: "3 * width img \<le> 2147483647" using n by simp
  have "0 \<le> 3 * width img * height img" using w h by simp
  then have b: "int_ok (3 * width img * height img)" unfolding int_ok_def using n by linarith
  have c: "int_ok (3 * width img)" unfolding int_ok_def using a w by linarith
  show ?thesis by (simp add: size3_def imul_def b c)
qed

lemma memcpy_all: "int (length dst) = n \<Longrightarrow> int (length src) = n \<Longrightarrow> memcpy dst src n = Some src"
  by (auto simp: memcpy_def)

section \<open>The iteration spaces\<close>

lemma length_window: "length window = 9"
  by (simp add: window_def)

lemma window_in_image:
  assumes "1 \<le> y" "y \<le> h - 2" "1 \<le> x" "x \<le> w - 2"
  shows "\<forall>(dy, dx)\<in>set window. 0 \<le> y + dy \<and> y + dy < h \<and> 0 \<le> x + dx \<and> x + dx < w"
  using assms by (simp add: window_def)

lemma set_interior: "set (interior w h) = {(y, x). 1 \<le> y \<and> y \<le> h - 2 \<and> 1 \<le> x \<and> x \<le> w - 2}"
  by (auto simp: interior_def)

lemma set_omp_for:
  assumes "use_openmp \<noteq> 0 \<longrightarrow> is_schedule w h sched"
  shows "set (omp_for use_openmp sched w h) = {(y, x). 1 \<le> y \<and> y \<le> h - 2 \<and> 1 \<le> x \<and> x \<le> w - 2}"
  using assms by (simp add: omp_for_def is_schedule_def set_interior)

section \<open>Writing pixels into the scratch buffer\<close>

text \<open>
  A loop whose iterations each write the three bytes of their own pixel: the bytes of
  the pixels visited hold the new values, every other byte is as before, and the order
  of the visits does not matter.
\<close>

lemma length_put3 [simp]: "length (put3 w f p t) = length t"
  by (cases p) (simp add: put3_def)

lemma for_each_put3:
  assumes "\<forall>p\<in>set ps. \<forall>t. int (length t) = n \<longrightarrow> body p t = Some (put3 w f p t)"
    and "int (length t) = n"
  shows "for_each body ps t = Some (fold (put3 w f) ps t)"
  using assms
proof (induction ps arbitrary: t)
  case Nil
  then show ?case by simp
next
  case (Cons p ps)
  have "body p t = Some (put3 w f p t)" using Cons.prems by simp
  moreover have "for_each body ps (put3 w f p t) = Some (fold (put3 w f) ps (put3 w f p t))"
    using Cons.IH [of "put3 w f p t"] Cons.prems by simp
  ultimately show ?case by simp
qed

lemma length_fold_put3 [simp]: "length (fold (put3 w f) ps t) = length t"
  by (induction ps arbitrary: t) simp_all

lemma put3_other:
  assumes "\<forall>c\<in>{0, 1, 2}. i \<noteq> nat (3 * (fst p * w + snd p) + c)"
  shows "put3 w f p t ! i = t ! i"
  using assms by (cases p) (simp add: put3_def)

lemma put3_hit:
  assumes "in_image w h (y, x)" "int (length t) = 3 * w * h" "c \<in> {0, 1, 2}"
  shows "put3 w f (y, x) t ! nat (3 * (y * w + x) + c) = word_of_int (f x y c)"
proof -
  have in_img: "0 \<le> y" "y < h" "0 \<le> x" "x < w" using assms(1) by (simp_all add: in_image_def)
  have "0 \<le> 3 * (y * w + x)" "3 * (y * w + x) + 2 < 3 * w * h"
    using idx_bounds [OF in_img, of 0] idx_bounds [OF in_img, of 2] by simp_all
  then have "nat (3 * (y * w + x)) + 2 < length t" using assms(2) by linarith
  moreover have "nat (3 * (y * w + x) + 1) = nat (3 * (y * w + x)) + 1"
    "nat (3 * (y * w + x) + 2) = nat (3 * (y * w + x)) + 2"
    using \<open>0 \<le> 3 * (y * w + x)\<close> by linarith+
  ultimately show ?thesis using assms(3)
    by (auto simp add: put3_def simp del: distrib_left_numeral)
qed

lemma fold_put3_other:
  assumes "\<forall>(y, x)\<in>set ps. \<forall>c\<in>{0, 1, 2}. i \<noteq> nat (3 * (y * w + x) + c)"
  shows "fold (put3 w f) ps t ! i = t ! i"
  using assms
proof (induction ps arbitrary: t)
  case Nil
  then show ?case by simp
next
  case (Cons p ps)
  have "fold (put3 w f) ps (put3 w f p t) ! i = put3 w f p t ! i"
    using Cons.IH [of "put3 w f p t"] Cons.prems by simp
  also have "\<dots> = t ! i"
    using Cons.prems by (intro put3_other) (auto simp: case_prod_beta)
  finally show ?case by simp
qed

lemma fold_put3_hit:
  assumes "\<forall>p\<in>set ps. in_image w h p" "int (length t) = 3 * w * h"
    and "(y, x) \<in> set ps" "c \<in> {0, 1, 2}"
  shows "fold (put3 w f) ps t ! nat (3 * (y * w + x) + c) = word_of_int (f x y c)"
  using assms(1,3)
proof (induction ps rule: rev_induct)
  case Nil
  then show ?case by simp
next
  case (snoc p ps)
  let ?t = "fold (put3 w f) ps t"
  have len: "int (length ?t) = 3 * w * h" using assms(2) by simp
  show ?case
  proof (cases "p = (y, x)")
    case True
    have "in_image w h (y, x)" using snoc.prems(1) True by simp
    then show ?thesis using put3_hit [OF _ len assms(4), of y x f] True by simp
  next
    case False
    then have mem: "(y, x) \<in> set ps" using snoc.prems(2) by simp
    obtain y' x' where p: "p = (y', x')" by (cases p)
    have ip: "in_image w h (y', x')" and iq: "in_image w h (y, x)"
      using snoc.prems(1) p mem by auto
    have ne: "nat (3 * (y * w + x) + c) \<noteq> nat (3 * (y' * w + x') + c')" if "c' \<in> {0, 1, 2}" for c'
    proof
      assume e: "nat (3 * (y * w + x) + c) = nat (3 * (y' * w + x') + c')"
      have b: "0 \<le> c" "c < 3" "0 \<le> c'" "c' < 3" using assms(4) that by auto
      have q: "0 \<le> y" "y < h" "0 \<le> x" "x < w" using iq by (simp_all add: in_image_def)
      have q': "0 \<le> y'" "y' < h" "0 \<le> x'" "x' < w" using ip by (simp_all add: in_image_def)
      have "0 \<le> 3 * (y * w + x) + c" "0 \<le> 3 * (y' * w + x') + c'"
        using idx_bounds(1) [OF q b(1,2)] idx_bounds(1) [OF q' b(3,4)] by simp_all
      then have "3 * (y * w + x) + c = 3 * (y' * w + x') + c'" using e by linarith
      then have "y = y' \<and> x = x'" using idx_inj [OF q(3,4) q'(3,4) b] by simp
      then show False using False p by simp
    qed
    have "put3 w f p ?t ! nat (3 * (y * w + x) + c) = ?t ! nat (3 * (y * w + x) + c)"
      by (rule put3_other) (use ne p in auto)
    then show ?thesis using snoc.IH mem snoc.prems(1) by simp
  qed
qed

lemma fold_put3_outside:
  assumes "\<forall>p\<in>set ps. 1 \<le> fst p \<and> fst p \<le> h - 2 \<and> 1 \<le> snd p \<and> snd p \<le> w - 2"
    and "\<forall>y x c. 1 \<le> y \<and> y \<le> h - 2 \<and> 1 \<le> x \<and> x \<le> w - 2 \<and> c \<in> {0, 1, 2}
           \<longrightarrow> i \<noteq> nat (3 * (y * w + x) + c)"
  shows "fold (put3 w f) ps t ! i = t ! i"
  using assms by (intro fold_put3_other) fastforce

lemma fold_put3_schedule:
  assumes ps: "\<forall>p\<in>set ps. in_image w h p" and eq: "set qs = set ps"
    and len: "int (length t) = 3 * w * h"
  shows "fold (put3 w f) qs t = fold (put3 w f) ps t"
proof (rule nth_equalityI)
  show "length (fold (put3 w f) qs t) = length (fold (put3 w f) ps t)" by simp
next
  fix i
  assume "i < length (fold (put3 w f) qs t)"
  have qs: "\<forall>p\<in>set qs. in_image w h p" using ps eq by simp
  show "fold (put3 w f) qs t ! i = fold (put3 w f) ps t ! i"
  proof (cases "\<exists>y x c. (y, x) \<in> set ps \<and> c \<in> {0, 1, 2} \<and> i = nat (3 * (y * w + x) + c)")
    case True
    then obtain y x c where m: "(y, x) \<in> set ps" and c: "c \<in> {0, 1, 2}"
      and i: "i = nat (3 * (y * w + x) + c)" by blast
    have m': "(y, x) \<in> set qs" using m eq by simp
    show ?thesis
      using fold_put3_hit [OF ps len m c, of f] fold_put3_hit [OF qs len m' c, of f] by (simp add: i)
  next
    case False
    then have "\<forall>(y, x)\<in>set ps. \<forall>c\<in>{0, 1, 2}. i \<noteq> nat (3 * (y * w + x) + c)" by blast
    moreover from this have "\<forall>(y, x)\<in>set qs. \<forall>c\<in>{0, 1, 2}. i \<noteq> nat (3 * (y * w + x) + c)"
      using eq by simp
    ultimately show ?thesis by (simp add: fold_put3_other)
  qed
qed

lemma sample_filtered:
  assumes v: "valid img" and s: "use_openmp \<noteq> 0 \<longrightarrow> is_schedule (width img) (height img) sched"
    and x: "1 \<le> x" "x \<le> width img - 2" and y: "1 \<le> y" "y \<le> height img - 2" and c: "c \<in> {0, 1, 2}"
    and f: "0 \<le> f x y c" "f x y c \<le> 255"
  shows "sample (img\<lparr>data := fold (put3 (width img) f) (omp_for use_openmp sched (width img) (height img))
                           (map junk [0..<nat (3 * width img * height img)])\<rparr>) x y c = f x y c"
proof -
  let ?ps = "omp_for use_openmp sched (width img) (height img)"
  let ?temp = "map junk [0..<nat (3 * width img * height img)]"
  have n0: "0 \<le> 3 * width img * height img" using v by (simp add: valid_def)
  have mem: "(y, x) \<in> set ?ps" using x y by (simp add: set_omp_for [OF s])
  have inside: "\<forall>p\<in>set ?ps. in_image (width img) (height img) p"
    by (auto simp: set_omp_for [OF s] in_image_def)
  have len: "int (length ?temp) = 3 * width img * height img" using n0 by simp
  have "fold (put3 (width img) f) ?ps ?temp ! nat (3 * (y * width img + x) + c) = word_of_int (f x y c)"
    using fold_put3_hit [OF inside len mem c] .
  then show ?thesis using f by (simp add: sample_def uint_byte del: distrib_left_numeral)
qed

section \<open>The blur filter, loop by loop\<close>

lemma blur_acc_ok:
  assumes "valid img" "0 \<le> y + dy" "y + dy < height img" "0 \<le> x + dx" "x + dx < width img"
  shows "blur_acc img y x (dy, dx) (sR, sG, sB, n) =
     Some (sR + sample img (x + dx) (y + dy) 0, sG + sample img (x + dx) (y + dy) 1,
           sB + sample img (x + dx) (y + dy) 2, n + 1)"
  using rd_sample [OF assms, of 0] rd_sample [OF assms, of 1] rd_sample [OF assms, of 2]
  by (simp add: Let_def blur_acc.simps sobel_acc.simps)

lemma blur_window_gen:
  assumes "valid img"
    and "\<forall>(dy, dx)\<in>set ds. 0 \<le> y + dy \<and> y + dy < height img \<and> 0 \<le> x + dx \<and> x + dx < width img"
  shows "for_each (blur_acc img y x) ds (sR, sG, sB, n) =
     Some (sR + window_sum img x y 0 ds, sG + window_sum img x y 1 ds,
           sB + window_sum img x y 2 ds, n + int (length ds))"
  using assms(2)
proof (induction ds arbitrary: sR sG sB n)
  case Nil
  then show ?case by (simp add: window_sum_def)
next
  case (Cons d ds)
  obtain dy dx where d: "d = (dy, dx)" by (cases d)
  have ok: "0 \<le> y + dy" "y + dy < height img" "0 \<le> x + dx" "x + dx < width img"
    using Cons.prems d by auto
  have rest: "\<forall>(dy, dx)\<in>set ds. 0 \<le> y + dy \<and> y + dy < height img \<and> 0 \<le> x + dx \<and> x + dx < width img"
    using Cons.prems by simp
  show ?case
    apply (simp only: for_each.simps d blur_acc_ok [OF assms(1) ok] option.case Cons.IH [OF rest])
    apply (simp add: window_sum_def)
    done
qed

lemma window_sum_bounds: "0 \<le> window_sum img x y c ds" "window_sum img x y c ds \<le> 255 * int (length ds)"
proof -
  show "0 \<le> window_sum img x y c ds"
    unfolding window_sum_def by (rule sum_list_nonneg) (auto simp: sample_bounds)
  show "window_sum img x y c ds \<le> 255 * int (length ds)"
  proof (induction ds)
    case Nil
    then show ?case by (simp add: window_sum_def)
  next
    case (Cons d ds)
    obtain dy dx where d: "d = (dy, dx)" by (cases d)
    have "window_sum img x y c (d # ds) = sample img (x + dx) (y + dy) c + window_sum img x y c ds"
      by (simp add: window_sum_def d)
    then show ?case
      using Cons.IH sample_bounds(2) [of img "x + dx" "y + dy" c] by simp
  qed
qed

lemma blur_pixel_ok:
  assumes v: "valid img" and y: "1 \<le> y" "y \<le> height img - 2" and x: "1 \<le> x" "x \<le> width img - 2"
    and len: "int (length temp) = 3 * width img * height img"
  shows "blur_pixel img (y, x) temp =
     Some (put3 (width img) (\<lambda>x y c. window_sum img x y c window div 9) (y, x) temp)"
proof -
  have loop: "for_each (blur_acc img y x) window (0, 0, 0, 0) =
      Some (window_sum img x y 0 window, window_sum img x y 1 window, window_sum img x y 2 window, 9)"
    using blur_window_gen [OF v window_in_image [OF y x], of 0 0 0 0]
    by (simp add: length_window)
  have div9: "cdiv (window_sum img x y c window) 9 = Some (window_sum img x y c window div 9)" for c
    using window_sum_bounds(1) [of img x y c window]
    by (simp add: cdiv_def signed_divide_int_def sgn_if)
  have in_img: "0 \<le> y" "y < height img" "0 \<le> x" "x < width img" using y x by simp_all
  have b0: "0 \<le> 3 * (y * width img + x)" "3 * (y * width img + x) < int (length temp)"
    using idx_bounds [OF in_img, of 0] len by simp_all
  have b1: "0 \<le> 3 * (y * width img + x) + 1" "3 * (y * width img + x) + 1 < int (length temp)"
    using idx_bounds [OF in_img, of 1] len by simp_all
  have b2: "0 \<le> 3 * (y * width img + x) + 2" "3 * (y * width img + x) + 2 < int (length temp)"
    using idx_bounds [OF in_img, of 2] len by simp_all
  have w1: "wr temp (3 * (y * width img + x)) v = Some (temp[nat (3 * (y * width img + x)) := word_of_int v])" for v
    using b0 by (rule wr_ok)
  have w2: "wr t (3 * (y * width img + x) + 1) v = Some (t[nat (3 * (y * width img + x) + 1) := word_of_int v])"
    if "length t = length temp" for v t
    using b1 that by (simp add: wr_def)
  have w3: "wr t (3 * (y * width img + x) + 2) v = Some (t[nat (3 * (y * width img + x) + 2) := word_of_int v])"
    if "length t = length temp" for v t
    using b2 that by (simp add: wr_def)
  show ?thesis
    by (simp add: loop div9 w1 w2 w3 put3_def Let_def del: distrib_left_numeral)
qed

lemma applyBlur_result:
  assumes v: "valid img" and s: "use_openmp \<noteq> 0 \<longrightarrow> is_schedule (width img) (height img) sched"
  shows "applyBlur img use_openmp sched junk =
     Some (img\<lparr>data := fold (put3 (width img) (blur_val img)) (omp_for use_openmp sched (width img) (height img))
                           (map junk [0..<nat (3 * width img * height img)])\<rparr>)"
proof -
  let ?w = "width img" and ?h = "height img"
  let ?n = "3 * ?w * ?h"
  let ?temp = "map junk [0..<nat ?n]"
  let ?ps = "omp_for use_openmp sched ?w ?h"
  have n0: "0 \<le> ?n" using v by (simp add: valid_def)
  have len: "int (length ?temp) = ?n" using n0 by simp
  have body: "\<forall>p\<in>set ?ps. \<forall>t. int (length t) = ?n \<longrightarrow>
      blur_pixel img p t = Some (put3 ?w (blur_val img) p t)"
    using blur_pixel_ok [OF v] by (auto simp: set_omp_for [OF s] blur_val_def [abs_def])
  have loop: "for_each (blur_pixel img) ?ps ?temp = Some (fold (put3 ?w (blur_val img)) ?ps ?temp)"
    using for_each_put3 [OF body len] .
  have cp: "memcpy (data img) (fold (put3 ?w (blur_val img)) ?ps ?temp) ?n
      = Some (fold (put3 ?w (blur_val img)) ?ps ?temp)"
    using v len by (intro memcpy_all) (simp_all add: valid_def)
  show ?thesis
    using n0 by (simp add: applyBlur_def size3_valid [OF v] malloc_def loop cp Let_def)
qed

lemma blur_val_spec: "blur_val img x y c = spec_average img x y c"
  by (simp add: blur_val_def window_sum_def window_def spec_average_def)

lemma blur_val_bounds: "0 \<le> blur_val img x y c" "blur_val img x y c \<le> 255"
proof -
  have "0 \<le> window_sum img x y c window" "window_sum img x y c window \<le> 255 * 9"
    using window_sum_bounds [of img x y c window] by (simp_all add: length_window)
  then show "0 \<le> blur_val img x y c" "blur_val img x y c \<le> 255"
    by (simp_all add: blur_val_def)
qed

lemma applyBlur_outside_interior:
  assumes v: "valid img" and s: "use_openmp \<noteq> 0 \<longrightarrow> is_schedule (width img) (height img) sched"
    and i: "i < nat (3 * width img * height img)"
    and out: "\<forall>y x c. 1 \<le> y \<and> y \<le> height img - 2 \<and> 1 \<le> x \<and> x \<le> width img - 2 \<and> c \<in> {0, 1, 2}
           \<longrightarrow> i \<noteq> nat (3 * (y * width img + x) + c)"
  shows "\<exists>res. applyBlur img use_openmp sched junk = Some res \<and> data res ! i = junk i"
proof -
  have "\<forall>p\<in>set (omp_for use_openmp sched (width img) (height img)).
      1 \<le> fst p \<and> fst p \<le> height img - 2 \<and> 1 \<le> snd p \<and> snd p \<le> width img - 2"
    by (auto simp: set_omp_for [OF s])
  then have "fold (put3 (width img) (blur_val img)) (omp_for use_openmp sched (width img) (height img))
      (map junk [0..<nat (3 * width img * height img)]) ! i = map junk [0..<nat (3 * width img * height img)] ! i"
    using out by (rule fold_put3_outside)
  then show ?thesis using applyBlur_result [OF v s, of junk] i by simp
qed

section \<open>The gradient magnitude\<close>

text \<open>
  The value assigned to the byte is \<open>min 255 \<lfloor>sqrt n\<rfloor>\<close>: between 0 and 255, equal to
  255 from \<open>n = 65025\<close> on, and the integer square root of \<open>n\<close> below.
\<close>

lemma magnitude_bounds: "0 \<le> magnitude sx sy" "magnitude sx sy \<le> 255"
proof -
  have "0 \<le> sqrt (of_int (sx * sx + sy * sy))" by simp
  then have "0 \<le> min (sqrt (of_int (sx * sx + sy * sy))) 255" by simp
  then show "0 \<le> magnitude sx sy" by (simp add: magnitude_def)
  have "min (sqrt (of_int (sx * sx + sy * sy))) 255 \<le> 255" by simp
  then have "\<lfloor>min (sqrt (of_int (sx * sx + sy * sy))) 255\<rfloor> \<le> \<lfloor>255 :: real\<rfloor>" by (rule floor_mono)
  then show "magnitude sx sy \<le> 255" by (simp add: magnitude_def)
qed

lemma magnitude_eq: "magnitude sx sy = min 255 \<lfloor>sqrt (of_int (sx * sx + sy * sy))\<rfloor>"
proof (cases "sqrt (of_int (sx * sx + sy * sy)) \<le> 255")
  case True
  then have "\<lfloor>sqrt (of_int (sx * sx + sy * sy))\<rfloor> \<le> \<lfloor>255 :: real\<rfloor>" by (rule floor_mono)
  then show ?thesis using True by (simp add: magnitude_def min_def)
next
  case False
  then have "(255 :: real) \<le> sqrt (of_int (sx * sx + sy * sy))" by simp
  then have "\<lfloor>255 :: real\<rfloor> \<le> \<lfloor>sqrt (of_int (sx * sx + sy * sy))\<rfloor>" by (rule floor_mono)
  then show ?thesis using False by (simp add: magnitude_def min_def)
qed

lemma floor_sqrt_eqI:
  assumes "0 \<le> k" "k * k \<le> n" "n < (k + 1) * (k + 1)"
  shows "\<lfloor>sqrt (of_int n)\<rfloor> = k"
proof (rule floor_unique)
  have "(of_int (k * k) :: real) \<le> of_int n"
    using assms(2) by (simp only: of_int_le_iff)
  then have "(of_int k)\<^sup>2 \<le> (of_int n :: real)"
    by (simp add: power2_eq_square)
  then show "of_int k \<le> sqrt (of_int n)" by (rule real_le_rsqrt)
  have "(of_int n :: real) < of_int ((k + 1) * (k + 1))"
    using assms(3) by (simp only: of_int_less_iff)
  then have "(of_int n :: real) < (of_int k + 1)\<^sup>2"
    by (simp add: power2_eq_square)
  moreover have "0 \<le> (of_int k + 1 :: real)" using assms(1) by simp
  ultimately show "sqrt (of_int n) < of_int k + 1" by (intro real_less_lsqrt)
qed

lemma magnitude_saturates:
  assumes "65025 \<le> sx * sx + sy * sy"
  shows "magnitude sx sy = 255"
proof -
  have "(of_int 65025 :: real) \<le> of_int (sx * sx + sy * sy)"
    using assms by (simp only: of_int_le_iff)
  then have "(255 :: real)\<^sup>2 \<le> of_int (sx * sx + sy * sy)" by simp
  then have "255 \<le> sqrt (of_int (sx * sx + sy * sy))" by (rule real_le_rsqrt)
  then show ?thesis by (simp add: magnitude_def min_def)
qed

lemma magnitude_root:
  assumes "sx * sx + sy * sy < 65025"
  shows "magnitude sx sy * magnitude sx sy \<le> sx * sx + sy * sy"
    and "sx * sx + sy * sy < (magnitude sx sy + 1) * (magnitude sx sy + 1)"
proof -
  let ?n = "sx * sx + sy * sy"
  let ?s = "sqrt (of_int ?n)"
  have n0: "0 \<le> (of_int ?n :: real)" by simp
  have "(of_int ?n :: real) < of_int 65025" using assms by (simp only: of_int_less_iff)
  then have "(of_int ?n :: real) < 255\<^sup>2" by simp
  then have "?s < 255" by (intro real_less_lsqrt) simp_all
  then have m: "magnitude sx sy = \<lfloor>?s\<rfloor>" by (simp add: magnitude_def min_def)
  have v0: "0 \<le> (of_int \<lfloor>?s\<rfloor> :: real)" by simp
  have lo: "of_int \<lfloor>?s\<rfloor> \<le> ?s" by (rule of_int_floor_le)
  have hi: "?s < of_int \<lfloor>?s\<rfloor> + 1" by linarith
  have "(of_int \<lfloor>?s\<rfloor>)\<^sup>2 \<le> ?s\<^sup>2" using v0 lo by (rule power_mono [OF _ _, rotated])
  then have "of_int (\<lfloor>?s\<rfloor> * \<lfloor>?s\<rfloor>) \<le> (of_int ?n :: real)"
    using n0 by (simp add: power2_eq_square)
  then have "\<lfloor>?s\<rfloor> * \<lfloor>?s\<rfloor> \<le> ?n" by (simp only: of_int_le_iff)
  then show "magnitude sx sy * magnitude sx sy \<le> ?n" by (simp only: m)
  have "?s\<^sup>2 < (of_int \<lfloor>?s\<rfloor> + 1)\<^sup>2"
    using hi by (intro power_strict_mono) simp_all
  then have "(of_int ?n :: real) < of_int ((\<lfloor>?s\<rfloor> + 1) * (\<lfloor>?s\<rfloor> + 1))"
    using n0 by (simp add: power2_eq_square)
  then have "?n < (\<lfloor>?s\<rfloor> + 1) * (\<lfloor>?s\<rfloor> + 1)" by (simp only: of_int_less_iff)
  then show "?n < (magnitude sx sy + 1) * (magnitude sx sy + 1)" by (simp only: m)
qed

lemma root_upto_props:
  assumes "0 \<le> n"
  shows "0 \<le> root_upto m n \<and> root_upto m n \<le> int m
     \<and> root_upto m n * root_upto m n \<le> n
     \<and> (root_upto m n < int m \<longrightarrow> n < (root_upto m n + 1) * (root_upto m n + 1))"
proof (induction m)
  case 0
  then show ?case using assms by simp
next
  case (Suc m)
  show ?case
  proof (cases "int (Suc m) * int (Suc m) \<le> n")
    case True
    then show ?thesis by simp
  next
    case False
    then have r: "root_upto (Suc m) n = root_upto m n" by simp
    have "n < (root_upto m n + 1) * (root_upto m n + 1)"
    proof (cases "root_upto m n < int m")
      case True
      then show ?thesis using Suc.IH by simp
    next
      case False
      then have "root_upto m n = int m" using Suc.IH by simp
      then show ?thesis using \<open>\<not> int (Suc m) * int (Suc m) \<le> n\<close> by (simp add: algebra_simps)
    qed
    then show ?thesis using Suc.IH by (simp add: r)
  qed
qed

lemma magnitude_code [code]: "magnitude sx sy = root_upto 255 (sx * sx + sy * sy)"
proof -
  let ?n = "sx * sx + sy * sy"
  let ?r = "root_upto 255 ?n"
  have n0: "0 \<le> ?n" by simp
  have p: "0 \<le> ?r" "?r \<le> 255" "?r * ?r \<le> ?n" "?r < 255 \<longrightarrow> ?n < (?r + 1) * (?r + 1)"
    using root_upto_props [OF n0, of 255] by simp_all
  show ?thesis
  proof (cases "65025 \<le> ?n")
    case True
    have "\<not> ?r < 255"
    proof
      assume lt: "?r < 255"
      then have "?r + 1 \<le> 255" by simp
      then have "(?r + 1) * (?r + 1) \<le> 255 * 255"
        using p(1) by (intro mult_mono) simp_all
      then show False using p(4) lt True by simp
    qed
    then have "?r = 255" using p(2) by simp
    then show ?thesis using magnitude_saturates [OF True] by simp
  next
    case False
    then have lt: "?n < 65025" by simp
    have "?r \<noteq> 255" using p(3) lt by auto
    then have "?r < 255" using p(2) by simp
    then have "\<lfloor>sqrt (of_int ?n)\<rfloor> = ?r" using p by (intro floor_sqrt_eqI) simp_all
    moreover have "magnitude sx sy = \<lfloor>sqrt (of_int ?n)\<rfloor>"
    proof -
      have "(of_int ?n :: real) < of_int 65025" using lt by (simp only: of_int_less_iff)
      then have "(of_int ?n :: real) < 255\<^sup>2" by simp
      then have "sqrt (of_int ?n) < 255" by (intro real_less_lsqrt) simp_all
      then show ?thesis by (simp add: magnitude_def min_def)
    qed
    ultimately show ?thesis by simp
  qed
qed

section \<open>The edge detection filter, loop by loop\<close>

lemma sobel_acc_ok:
  assumes "valid img" "0 \<le> y + dy" "y + dy < height img" "0 \<le> x + dx" "x + dx < width img"
  shows "sobel_acc img y x (dy, dx) ((aR, aG, aB), (bR, bG, bB)) =
     Some ((aR + sample img (x + dx) (y + dy) 0 * (Gx ! nat (dy + 1) ! nat (dx + 1)),
            aG + sample img (x + dx) (y + dy) 1 * (Gx ! nat (dy + 1) ! nat (dx + 1)),
            aB + sample img (x + dx) (y + dy) 2 * (Gx ! nat (dy + 1) ! nat (dx + 1))),
           (bR + sample img (x + dx) (y + dy) 0 * (Gy ! nat (dy + 1) ! nat (dx + 1)),
            bG + sample img (x + dx) (y + dy) 1 * (Gy ! nat (dy + 1) ! nat (dx + 1)),
            bB + sample img (x + dx) (y + dy) 2 * (Gy ! nat (dy + 1) ! nat (dx + 1))))"
  using rd_sample [OF assms, of 0] rd_sample [OF assms, of 1] rd_sample [OF assms, of 2]
  by (simp add: Let_def blur_acc.simps sobel_acc.simps)

lemma sobel_window_gen:
  assumes "valid img"
    and "\<forall>(dy, dx)\<in>set ds. 0 \<le> y + dy \<and> y + dy < height img \<and> 0 \<le> x + dx \<and> x + dx < width img"
  shows "for_each (sobel_acc img y x) ds ((aR, aG, aB), (bR, bG, bB)) =
     Some ((aR + conv img Gx x y 0 ds, aG + conv img Gx x y 1 ds, aB + conv img Gx x y 2 ds),
           (bR + conv img Gy x y 0 ds, bG + conv img Gy x y 1 ds, bB + conv img Gy x y 2 ds))"
  using assms(2)
proof (induction ds arbitrary: aR aG aB bR bG bB)
  case Nil
  then show ?case by (simp add: conv_def)
next
  case (Cons d ds)
  obtain dy dx where d: "d = (dy, dx)" by (cases d)
  have ok: "0 \<le> y + dy" "y + dy < height img" "0 \<le> x + dx" "x + dx < width img"
    using Cons.prems d by auto
  have rest: "\<forall>(dy, dx)\<in>set ds. 0 \<le> y + dy \<and> y + dy < height img \<and> 0 \<le> x + dx \<and> x + dx < width img"
    using Cons.prems by simp
  show ?case
    apply (simp only: for_each.simps d sobel_acc_ok [OF assms(1) ok] option.case Cons.IH [OF rest])
    apply (simp add: conv_def)
    done
qed

lemma sobel_pixel_ok:
  assumes v: "valid img" and y: "1 \<le> y" "y \<le> height img - 2" and x: "1 \<le> x" "x \<le> width img - 2"
    and len: "int (length temp) = 3 * width img * height img"
  shows "sobel_pixel img (y, x) temp = Some (put3 (width img) (sobel_val img) (y, x) temp)"
proof -
  have loop: "for_each (sobel_acc img y x) window ((0, 0, 0), (0, 0, 0)) =
      Some ((conv img Gx x y 0 window, conv img Gx x y 1 window, conv img Gx x y 2 window),
            (conv img Gy x y 0 window, conv img Gy x y 1 window, conv img Gy x y 2 window))"
    using sobel_window_gen [OF v window_in_image [OF y x], of 0 0 0 0 0 0]
    by simp
  have in_img: "0 \<le> y" "y < height img" "0 \<le> x" "x < width img" using y x by simp_all
  have b0: "0 \<le> 3 * (y * width img + x)" "3 * (y * width img + x) < int (length temp)"
    using idx_bounds [OF in_img, of 0] len by simp_all
  have b1: "0 \<le> 3 * (y * width img + x) + 1" "3 * (y * width img + x) + 1 < int (length temp)"
    using idx_bounds [OF in_img, of 1] len by simp_all
  have b2: "0 \<le> 3 * (y * width img + x) + 2" "3 * (y * width img + x) + 2 < int (length temp)"
    using idx_bounds [OF in_img, of 2] len by simp_all
  have w1: "wr temp (3 * (y * width img + x)) v = Some (temp[nat (3 * (y * width img + x)) := word_of_int v])" for v
    using b0 by (rule wr_ok)
  have w2: "wr t (3 * (y * width img + x) + 1) v = Some (t[nat (3 * (y * width img + x) + 1) := word_of_int v])"
    if "length t = length temp" for v t
    using b1 that by (simp add: wr_def)
  have w3: "wr t (3 * (y * width img + x) + 2) v = Some (t[nat (3 * (y * width img + x) + 2) := word_of_int v])"
    if "length t = length temp" for v t
    using b2 that by (simp add: wr_def)
  show ?thesis
    by (simp add: loop w1 w2 w3 put3_def sobel_val_def Let_def del: distrib_left_numeral)
qed

lemma applyEdgeDetection_result:
  assumes v: "valid img" and s: "use_openmp \<noteq> 0 \<longrightarrow> is_schedule (width img) (height img) sched"
  shows "applyEdgeDetection img use_openmp sched junk =
     Some (img\<lparr>data := fold (put3 (width img) (sobel_val img)) (omp_for use_openmp sched (width img) (height img))
                           (map junk [0..<nat (3 * width img * height img)])\<rparr>)"
proof -
  let ?w = "width img" and ?h = "height img"
  let ?n = "3 * ?w * ?h"
  let ?temp = "map junk [0..<nat ?n]"
  let ?ps = "omp_for use_openmp sched ?w ?h"
  have n0: "0 \<le> ?n" using v by (simp add: valid_def)
  have len: "int (length ?temp) = ?n" using n0 by simp
  have body: "\<forall>p\<in>set ?ps. \<forall>t. int (length t) = ?n \<longrightarrow>
      sobel_pixel img p t = Some (put3 ?w (sobel_val img) p t)"
    using sobel_pixel_ok [OF v] by (auto simp: set_omp_for [OF s])
  have loop: "for_each (sobel_pixel img) ?ps ?temp = Some (fold (put3 ?w (sobel_val img)) ?ps ?temp)"
    using for_each_put3 [OF body len] .
  have cp: "memcpy (data img) (fold (put3 ?w (sobel_val img)) ?ps ?temp) ?n
      = Some (fold (put3 ?w (sobel_val img)) ?ps ?temp)"
    using v len by (intro memcpy_all) (simp_all add: valid_def)
  show ?thesis
    using n0 by (simp add: applyEdgeDetection_def size3_valid [OF v] malloc_def loop cp Let_def)
qed

lemma conv_spec:
  "conv img Gx x y c window = spec_gradient spec_Kx img x y c"
  "conv img Gy x y c window = spec_gradient spec_Ky img x y c"
  by (simp_all add: conv_def window_def spec_gradient_def Gx_def Gy_def spec_Kx_def spec_Ky_def)

lemma conv_bounds:
  "\<bar>conv img Gx x y c window\<bar> \<le> 1020" "\<bar>conv img Gy x y c window\<bar> \<le> 1020"
proof -
  have s: "0 \<le> sample img (x + dx) (y + dy) c \<and> sample img (x + dx) (y + dy) c \<le> 255" for dx dy
    by (simp add: sample_bounds)
  show "\<bar>conv img Gx x y c window\<bar> \<le> 1020"
    using s [of "-1" "-1"] s [of 1 "-1"] s [of "-1" 0] s [of 1 0] s [of "-1" 1] s [of 1 1]
    by (simp add: conv_def window_def Gx_def abs_le_iff)
  show "\<bar>conv img Gy x y c window\<bar> \<le> 1020"
    using s [of "-1" "-1"] s [of 0 "-1"] s [of 1 "-1"] s [of "-1" 1] s [of 0 1] s [of 1 1]
    by (simp add: conv_def window_def Gy_def abs_le_iff)
qed

lemma sobel_sums_fit_int:
  "int_ok (conv img Gx x y c window * conv img Gx x y c window
     + conv img Gy x y c window * conv img Gy x y c window)"
proof -
  have sq: "0 \<le> a * a \<and> a * a \<le> 1040400" if "\<bar>a\<bar> \<le> 1020" for a :: int
  proof -
    have "\<bar>a\<bar> * \<bar>a\<bar> \<le> 1020 * 1020" using that by (intro mult_mono) simp_all
    then show ?thesis by (simp add: abs_mult_self_eq)
  qed
  show ?thesis
    using sq [OF conv_bounds(1) [of img x y c]] sq [OF conv_bounds(2) [of img x y c]]
    unfolding int_ok_def by linarith
qed

lemma sobel_val_spec: "sobel_val img x y c = spec_sobel img x y c"
  by (simp add: sobel_val_def magnitude_eq conv_spec spec_sobel_def power2_eq_square)

lemma sobel_val_bounds: "0 \<le> sobel_val img x y c" "sobel_val img x y c \<le> 255"
  by (simp_all add: sobel_val_def magnitude_bounds)

lemma sobel_sample:
  assumes "valid img"
    and "use_openmp \<noteq> 0 \<longrightarrow> is_schedule (width img) (height img) sched"
    and "1 \<le> x" "x \<le> width img - 2" "1 \<le> y" "y \<le> height img - 2" "c \<in> {0, 1, 2}"
  shows "\<exists>out. applyEdgeDetection img use_openmp sched junk = Some out
           \<and> width out = width img \<and> height out = height img
           \<and> sample out x y c = sobel_val img x y c"
proof -
  have "sample (img\<lparr>data := fold (put3 (width img) (sobel_val img))
            (omp_for use_openmp sched (width img) (height img))
            (map junk [0..<nat (3 * width img * height img)])\<rparr>) x y c = sobel_val img x y c"
    using assms by (intro sample_filtered sobel_val_bounds)
  then show ?thesis
    using applyEdgeDetection_result [OF assms(1,2), of junk] by simp
qed

lemma applyEdgeDetection_outside_interior:
  assumes v: "valid img" and s: "use_openmp \<noteq> 0 \<longrightarrow> is_schedule (width img) (height img) sched"
    and i: "i < nat (3 * width img * height img)"
    and out: "\<forall>y x c. 1 \<le> y \<and> y \<le> height img - 2 \<and> 1 \<le> x \<and> x \<le> width img - 2 \<and> c \<in> {0, 1, 2}
           \<longrightarrow> i \<noteq> nat (3 * (y * width img + x) + c)"
  shows "\<exists>res. applyEdgeDetection img use_openmp sched junk = Some res \<and> data res ! i = junk i"
proof -
  have "\<forall>p\<in>set (omp_for use_openmp sched (width img) (height img)).
      1 \<le> fst p \<and> fst p \<le> height img - 2 \<and> 1 \<le> snd p \<and> snd p \<le> width img - 2"
    by (auto simp: set_omp_for [OF s])
  then have "fold (put3 (width img) (sobel_val img)) (omp_for use_openmp sched (width img) (height img))
      (map junk [0..<nat (3 * width img * height img)]) ! i = map junk [0..<nat (3 * width img * height img)] ! i"
    using out by (rule fold_put3_outside)
  then show ?thesis using applyEdgeDetection_result [OF v s, of junk] i by simp
qed

section \<open>Constant-colour buffers\<close>

lemma nth_concat_replicate3:
  "i < 3 * n \<Longrightarrow> concat (replicate n [r, g, b]) ! i = [r, g, b] ! (i mod 3)"
proof (induction n arbitrary: i)
  case 0
  then show ?case by simp
next
  case (Suc n)
  show ?case
  proof (cases "i < 3")
    case True
    then have "i = 0 \<or> i = 1 \<or> i = 2" by linarith
    then show ?thesis by auto
  next
    case False
    then obtain j where j: "i = j + 3" using le_Suc_ex [of 3 i] by (auto simp: add.commute)
    then have "j < 3 * n" using Suc.prems by simp
    then have "concat (replicate n [r, g, b]) ! j = [r, g, b] ! (j mod 3)" by (rule Suc.IH)
    then show ?thesis by (simp add: j)
  qed
qed

lemma sample_constant:
  assumes cc: "constant_color img r g b" and v: "valid img"
    and p: "0 \<le> y" "y < height img" "0 \<le> x" "x < width img" and c: "c \<in> {0, 1, 2}"
  shows "sample img x y c = uint ([r, g, b] ! nat c)"
proof -
  have cb: "0 \<le> c" "c < 3" using c by auto
  have b: "0 \<le> 3 * (y * width img + x) + c" "3 * (y * width img + x) + c < 3 * width img * height img"
    using idx_bounds [OF p cb] by simp_all
  have wh: "0 \<le> width img * height img" using v by (simp add: valid_def)
  have lt: "nat (3 * (y * width img + x) + c) < 3 * nat (width img * height img)"
    using b wh by linarith
  have "int (nat (3 * (y * width img + x) + c) mod 3) = (3 * (y * width img + x) + c) mod 3"
    using b(1) by (simp add: zmod_int)
  also have "\<dots> = c mod 3" by (rule mod_mult_self4)
  also have "\<dots> = c" using cb by simp
  finally have m: "nat (3 * (y * width img + x) + c) mod 3 = nat c" by linarith
  show ?thesis
    using nth_concat_replicate3 [OF lt, of r g b] cc
    by (simp add: sample_def constant_color_def m del: distrib_left_numeral)
qed

lemma sobel_val_constant:
  assumes cc: "constant_color img r g b" and v: "valid img"
    and "1 \<le> x" "x \<le> width img - 2" "1 \<le> y" "y \<le> height img - 2" and c: "c \<in> {0, 1, 2}"
  shows "sobel_val img x y c = 0"
proof -
  have s: "sample img x' y' c = uint ([r, g, b] ! nat c)"
    if "0 \<le> y'" "y' < height img" "0 \<le> x'" "x' < width img" for x' y'
    using that by (intro sample_constant [OF cc v _ _ _ _ c])
  have "conv img Gx x y c window = 0" "conv img Gy x y c window = 0"
    using assms(3-6) by (simp_all add: conv_def window_def Gx_def Gy_def s)
  then show ?thesis by (simp add: sobel_val_def magnitude_def)
qed

section \<open>The schedule of the parallel loop\<close>

text \<open>
  With the same contents of the scratch block, every schedule of the parallel loop
  gives the result of the sequential loop.
\<close>

lemma schedule_independent:
  assumes v: "valid img" and s: "is_schedule (width img) (height img) sched"
  shows "applyBlur img 1 sched junk = applyBlur img 0 sched' junk"
    and "applyEdgeDetection img 1 sched junk = applyEdgeDetection img 0 sched' junk"
proof -
  let ?w = "width img" and ?h = "height img"
  let ?t = "map junk [0..<nat (3 * ?w * ?h)]"
  have n0: "0 \<le> 3 * ?w * ?h" using v by (simp add: valid_def)
  have len: "int (length ?t) = 3 * ?w * ?h" using n0 by simp
  have ps: "\<forall>p\<in>set (interior ?w ?h). in_image ?w ?h p"
    by (auto simp: set_interior in_image_def)
  have eq: "set sched = set (interior ?w ?h)" using s by (simp add: is_schedule_def)
  have f: "fold (put3 ?w f) sched ?t = fold (put3 ?w f) (interior ?w ?h) ?t" for f
    using fold_put3_schedule [OF ps eq len] .
  have s1: "(1::int) \<noteq> 0 \<longrightarrow> is_schedule ?w ?h sched" using s by simp
  have s0: "(0::int) \<noteq> 0 \<longrightarrow> is_schedule ?w ?h sched'" by simp
  show "applyBlur img 1 sched junk = applyBlur img 0 sched' junk"
    using applyBlur_result [OF v s1, of junk] applyBlur_result [OF v s0, of junk]
    by (simp add: omp_for_def f)
  show "applyEdgeDetection img 1 sched junk = applyEdgeDetection img 0 sched' junk"
    using applyEdgeDetection_result [OF v s1, of junk] applyEdgeDetection_result [OF v s0, of junk]
    by (simp add: omp_for_def f)
qed

section \<open>Decoding and encoding\<close>

lemma fscanf_header_P6:
  assumes "format f = ''P6''" "maxColor f = MAX_COLOR" "int_ok (hdr_width f)" "int_ok (hdr_height f)"
  shows "fscanf_header f = Some (''P6'', hdr_width f, hdr_height f, MAX_COLOR)"
  using assms by (simp add: fscanf_header_def MAX_COLOR_def int_ok_def)

lemma readPPM_rejects:
  assumes "files fs name = Some f"
    and "format f \<noteq> []" "length (format f) \<le> 2"
    and "int_ok (hdr_width f)" "int_ok (hdr_height f)" "int_ok (maxColor f)"
    and "format f \<noteq> ''P6'' \<or> maxColor f \<noteq> 255"
  shows "readPPM fs name junk = Some (Inl 1)"
  using assms by (auto simp: readPPM_def fscanf_header_def MAX_COLOR_def)

lemma main_rejects_stored_bad_header:
  assumes "length argv = 4" "files fs (argv ! 1) = Some f"
    and "format f \<noteq> []" "length (format f) \<le> 2"
    and "int_ok (hdr_width f)" "int_ok (hdr_height f)" "int_ok (maxColor f)"
    and "format f \<noteq> ''P6'' \<or> maxColor f \<noteq> 255"
  shows "main argv fs rt = Some (1, fs)"
  using assms(1) readPPM_rejects [OF assms(2-8)] by (simp add: main_def)

lemma readPPM_decodes:
  assumes "readPPM fs name junk = Some (Inr img)"
  obtains f where "files fs name = Some f" "format f = ''P6''" "maxColor f = MAX_COLOR"
    "int_ok (hdr_width f)" "int_ok (hdr_height f)"
    "width img = hdr_width f" "height img = hdr_height f"
    "size3 (hdr_width f) (hdr_height f) = Some (3 * hdr_width f * hdr_height f)"
    "imul (hdr_width f) (hdr_height f) = Some (hdr_width f * hdr_height f)"
    "0 \<le> hdr_width f * hdr_height f"
    "length (data img) = 3 * nat (hdr_width f * hdr_height f)"
proof -
  obtain f where f: "files fs name = Some f"
    using assms by (cases "files fs name") (simp_all add: readPPM_def)
  have ok: "format f = ''P6''" "maxColor f = MAX_COLOR"
    and rng: "int_ok (hdr_width f)" "int_ok (hdr_height f)"
    using assms f
    by (auto simp: readPPM_def fscanf_header_def split: if_splits Option.bind_splits)
  have hdr: "fscanf_header f = Some (''P6'', hdr_width f, hdr_height f, MAX_COLOR)"
    using ok rng by (rule fscanf_header_P6)
  let ?w = "hdr_width f" and ?h = "hdr_height f"
  from assms f hdr obtain n buf cnt d where
    n: "size3 ?w ?h = Some n" and buf: "malloc n junk = Some buf"
    and cnt: "imul ?w ?h = Some cnt" and d: "fread buf (payload f) cnt = Some d"
    and img: "img = \<lparr>width = ?w, height = ?h, data = d\<rparr>"
    by (auto simp: readPPM_def split: Option.bind_splits)
  have n_eq: "n = 3 * ?w * ?h"
    using n by (auto simp: size3_def imul_def split: Option.bind_splits if_splits)
  have cnt_eq: "cnt = ?w * ?h" using cnt by (auto simp: imul_def split: if_splits)
  have n0: "0 \<le> n" and buf_eq: "buf = map junk [0..<nat n]"
    using buf by (auto simp: malloc_def split: if_splits)
  have "n = 3 * (?w * ?h)" using n_eq by (simp only: mult.assoc)
  then have wh0: "0 \<le> ?w * ?h" and nn: "nat n = 3 * nat (?w * ?h)" using n0 by linarith+
  have lb: "length buf = 3 * nat (?w * ?h)" using buf_eq nn by simp
  have ld: "length d = length buf"
    using d by (auto simp: fread_def Let_def split: if_splits)
  show thesis
  proof (rule that [of f])
    show "files fs name = Some f" "format f = ''P6''" "maxColor f = MAX_COLOR" by (fact f ok)+
    show "int_ok (hdr_width f)" "int_ok (hdr_height f)" by (fact rng)+
    show "width img = ?w" "height img = ?h" by (simp_all add: img)
    show "size3 ?w ?h = Some (3 * ?w * ?h)" using n n_eq by simp
    show "imul ?w ?h = Some (?w * ?h)" using cnt cnt_eq by simp
    show "0 \<le> ?w * ?h" by (fact wh0)
    show "length (data img) = 3 * nat (?w * ?h)" using ld lb by (simp add: img)
  qed
qed

lemma readPPM_junk_independent:
  assumes "readPPM fs name junk = Some (Inr img)"
  shows "\<exists>img'. readPPM fs name junk' = Some (Inr img')"
proof -
  from assms obtain f where f: "files fs name = Some f" and ok: "format f = ''P6''" "maxColor f = MAX_COLOR"
    and rng: "int_ok (hdr_width f)" "int_ok (hdr_height f)"
    and "width img = hdr_width f" "height img = hdr_height f"
    and n: "size3 (hdr_width f) (hdr_height f) = Some (3 * hdr_width f * hdr_height f)"
    and c: "imul (hdr_width f) (hdr_height f) = Some (hdr_width f * hdr_height f)"
    and wh: "0 \<le> hdr_width f * hdr_height f"
    and "length (data img) = 3 * nat (hdr_width f * hdr_height f)"
    by (rule readPPM_decodes)
  define k where "k = hdr_width f * hdr_height f"
  have "3 * hdr_width f * hdr_height f = 3 * k" unfolding k_def by (simp only: mult.assoc)
  then have n': "size3 (hdr_width f) (hdr_height f) = Some (3 * k)" using n by simp
  have c': "imul (hdr_width f) (hdr_height f) = Some k" using c by (simp only: k_def)
  have k0: "0 \<le> k" using wh by (simp only: k_def)
  then have "nat (3 * k) = 3 * nat k" by linarith
  then show ?thesis
    using f k0
    by (simp add: readPPM_def fscanf_header_P6 [OF ok rng] n' c' malloc_def fread_def Let_def)
qed

lemma writePPM_decoded:
  assumes "readPPM fs name junk = Some (Inr img)" "writable fs out"
  shows "writePPM fs' out img =
     (if writable fs' out then
        Some (Inr (fs'\<lparr>files := (files fs')(out \<mapsto>
          \<lparr>format = ''P6'', hdr_width = width img, hdr_height = height img,
           maxColor = MAX_COLOR, payload = data img\<rparr>)\<rparr>))
      else Some (Inl 1))"
proof -
  from assms(1) obtain f where "files fs name = Some f" "format f = ''P6''" "maxColor f = MAX_COLOR"
    and "int_ok (hdr_width f)" "int_ok (hdr_height f)"
    and w: "width img = hdr_width f" "height img = hdr_height f"
    and "size3 (hdr_width f) (hdr_height f) = Some (3 * hdr_width f * hdr_height f)"
    and c: "imul (hdr_width f) (hdr_height f) = Some (hdr_width f * hdr_height f)"
    and wh: "0 \<le> hdr_width f * hdr_height f"
    and len: "length (data img) = 3 * nat (hdr_width f * hdr_height f)"
    by (rule readPPM_decodes)
  define k where "k = hdr_width f * hdr_height f"
  have c': "imul (width img) (height img) = Some k" using c w by (simp only: k_def)
  have k0: "0 \<le> k" and len': "length (data img) = 3 * nat k" using wh len by (simp_all only: k_def)
  show ?thesis using k0 len' by (simp add: writePPM_def c' fwrite_def)
qed

section \<open>Images without interior\<close>

text \<open>
  When \<open>w < 3\<close> or \<open>h < 3\<close> the pixel loop has no iteration: the filters access
  nothing and return the scratch block as it came from \<^verbatim>\<open>malloc\<close>.
\<close>

lemma omp_for_small:
  assumes "w < 3 \<or> h < 3" "use_openmp \<noteq> 0 \<longrightarrow> is_schedule w h sched"
  shows "omp_for use_openmp sched w h = []"
proof -
  have "set (omp_for use_openmp sched w h) = {}"
    using assms(1) by (auto simp: set_omp_for [OF assms(2)])
  then show ?thesis by simp
qed

lemma small_image_result:
  assumes "valid img" "width img < 3 \<or> height img < 3"
    and "use_openmp \<noteq> 0 \<longrightarrow> is_schedule (width img) (height img) sched"
  shows "applyBlur img use_openmp sched junk =
           Some (img\<lparr>data := map junk [0..<nat (3 * width img * height img)]\<rparr>)"
    and "applyEdgeDetection img use_openmp sched junk =
           Some (img\<lparr>data := map junk [0..<nat (3 * width img * height img)]\<rparr>)"
  using applyBlur_result [OF assms(1,3), of junk] applyEdgeDetection_result [OF assms(1,3), of junk]
  by (simp_all add: omp_for_small [OF assms(2,3)])

section \<open>Claims\<close>

text \<open>
  C1 states that for \<open>w \<ge> 3\<close> and \<open>h \<ge> 3\<close>, under both policies, every border pixel of
  the output is byte-identical to the input. The code does not do this: \<^verbatim>\<open>temp\<close> comes
  from \<^verbatim>\<open>malloc\<close>, only its interior pixels are written, and \<^verbatim>\<open>memcpy\<close> copies all of
  it over the image, so the border of the result is what the scratch block held
  (\<open>applyBlur_outside_interior\<close>, \<open>applyEdgeDetection_outside_interior\<close>). The
  theorem runs both filters on a white 3x3 image, with a scratch block of zeros for the
  blur and of sevens for the edge detection: the border comes back as zeros and as
  sevens.
\<close>

theorem border_overwritten_3x3:
  "applyBlur \<lparr>width = 3, height = 3, data = replicate 27 255\<rparr> 0 [] (\<lambda>_. 0) =
     Some \<lparr>width = 3, height = 3,
           data = [0, 0, 0, 0, 0, 0, 0, 0, 0,
                   0, 0, 0, 255, 255, 255, 0, 0, 0,
                   0, 0, 0, 0, 0, 0, 0, 0, 0]\<rparr>
   \<and> applyEdgeDetection \<lparr>width = 3, height = 3, data = replicate 27 255\<rparr> 0 [] (\<lambda>_. 7) =
     Some \<lparr>width = 3, height = 3,
           data = [7, 7, 7, 7, 7, 7, 7, 7, 7,
                   7, 7, 7, 0, 0, 0, 7, 7, 7,
                   7, 7, 7, 7, 7, 7, 7, 7, 7]\<rparr>"
  by code_simp

text \<open>
  C2 states that for \<open>w < 3\<close> or \<open>h < 3\<close> either filter reads nothing out of bounds and
  returns the input unchanged. The first half holds, the second does not: on a white
  2x2 image the loops do not run and no access is made (the result is \<open>Some\<close>), but
  the whole result is the scratch block (\<open>small_image_result\<close>), here zeros. The
  defect is that of C1.
\<close>

theorem small_image_overwritten_2x2:
  "applyBlur \<lparr>width = 2, height = 2, data = replicate 12 255\<rparr> 0 [] (\<lambda>_. 0) =
     Some \<lparr>width = 2, height = 2, data = replicate 12 0\<rparr>
   \<and> applyEdgeDetection \<lparr>width = 2, height = 2, data = replicate 12 255\<rparr> 0 [] (\<lambda>_. 0) =
     Some \<lparr>width = 2, height = 2, data = replicate 12 0\<rparr>"
  by code_simp

text \<open>
  C3. Under the Average policy, for every buffer of valid shape with \<open>w \<ge> 3\<close> and
  \<open>h \<ge> 3\<close>, sequentially or under any schedule of the parallel loop, the filter returns,
  and each channel of every interior pixel of the result is the sum of the nine samples
  of that channel in the 3x3 neighbourhood divided by 9 with truncation, a value
  between 0 and 255.
\<close>

theorem applyBlur_interior_average:
  assumes "valid img" "3 \<le> width img" "3 \<le> height img"
    and "use_openmp \<noteq> 0 \<longrightarrow> is_schedule (width img) (height img) sched"
    and "1 \<le> x" "x \<le> width img - 2" "1 \<le> y" "y \<le> height img - 2" "c \<in> {0, 1, 2}"
  shows "\<exists>out. applyBlur img use_openmp sched junk = Some out
           \<and> width out = width img \<and> height out = height img
           \<and> sample out x y c = spec_average img x y c
           \<and> 0 \<le> spec_average img x y c \<and> spec_average img x y c \<le> 255"
proof -
  have "sample (img\<lparr>data := fold (put3 (width img) (blur_val img))
            (omp_for use_openmp sched (width img) (height img))
            (map junk [0..<nat (3 * width img * height img)])\<rparr>) x y c = blur_val img x y c"
    using assms by (intro sample_filtered blur_val_bounds)
  then show ?thesis
    using applyBlur_result [OF assms(1,4), of junk] blur_val_bounds [of img x y c]
    by (simp add: blur_val_spec)
qed

theorem applyBlur_interior_average_witness:
  "\<exists>out. applyBlur \<lparr>width = 3, height = 3,
              data = [0, 1, 2, 3, 4, 5, 6, 7, 8, 9, 10, 11, 12, 13, 14, 15, 16, 17, 18, 19, 20,
                      21, 22, 23, 24, 25, 26]\<rparr> 1 [(1, 1)] (\<lambda>_. 0) = Some out
         \<and> sample out 1 1 2 = 14"
  using applyBlur_interior_average [of "\<lparr>width = 3, height = 3,
              data = [0, 1, 2, 3, 4, 5, 6, 7, 8, 9, 10, 11, 12, 13, 14, 15, 16, 17, 18, 19, 20,
                      21, 22, 23, 24, 25, 26]\<rparr>" 1 "[(1, 1)]" 1 1 2 "\<lambda>_. 0"]
  by (auto simp add: valid_def is_schedule_def interior_def spec_average_def sample_def)

text \<open>
  C4. Under the Sobel policy, for every buffer of valid shape with \<open>w \<ge> 3\<close> and
  \<open>h \<ge> 3\<close>, sequentially or under any schedule of the parallel loop, the filter returns,
  and each channel of every interior pixel of the result is
  \<open>min 255 \<lfloor>sqrt (Gx\<^sup>2 + Gy\<^sup>2)\<rfloor>\<close>, the square root truncated, where \<open>Gx\<close> and
  \<open>Gy\<close> are the convolutions of the neighbourhood with the kernels
  \<open>[[-1,0,1],[-2,0,2],[-1,0,1]]\<close> and \<open>[[-1,-2,-1],[0,0,0],[1,2,1]]\<close>.
\<close>

theorem applyEdgeDetection_interior_magnitude:
  assumes "valid img" "3 \<le> width img" "3 \<le> height img"
    and "use_openmp \<noteq> 0 \<longrightarrow> is_schedule (width img) (height img) sched"
    and "1 \<le> x" "x \<le> width img - 2" "1 \<le> y" "y \<le> height img - 2" "c \<in> {0, 1, 2}"
  shows "\<exists>out. applyEdgeDetection img use_openmp sched junk = Some out
           \<and> width out = width img \<and> height out = height img
           \<and> sample out x y c = spec_sobel img x y c"
  using sobel_sample [OF assms(1,4-9), of junk] by (simp add: sobel_val_spec)

theorem applyEdgeDetection_interior_magnitude_witness:
  "\<exists>out. applyEdgeDetection \<lparr>width = 3, height = 3,
              data = [0, 0, 0, 0, 0, 0, 0, 0, 0,
                      0, 0, 0, 9, 9, 9, 1, 1, 1,
                      0, 0, 0, 1, 1, 1, 0, 0, 0]\<rparr> 1 [(1, 1)] (\<lambda>_. 7) = Some out
         \<and> sample out 1 1 0 = 2"
  using applyEdgeDetection_interior_magnitude [of "\<lparr>width = 3, height = 3,
              data = [0, 0, 0, 0, 0, 0, 0, 0, 0,
                      0, 0, 0, 9, 9, 9, 1, 1, 1,
                      0, 0, 0, 1, 1, 1, 0, 0, 0]\<rparr>" 1 "[(1, 1)]" 1 1 0 "\<lambda>_. 7"]
    floor_sqrt_eqI [of 2 8]
  by (auto simp add: valid_def is_schedule_def interior_def spec_sobel_def spec_gradient_def
        spec_Kx_def spec_Ky_def sample_def)

text \<open>
  C5. Under the Sobel policy every channel of every interior pixel of the result is at
  most 255, and the magnitude is clamped, not wrapped: when \<open>Gx\<^sup>2 + Gy\<^sup>2\<close> is at
  least \<open>255\<^sup>2 = 65025\<close> the stored byte is exactly 255, and below that it is the
  integer square root of \<open>Gx\<^sup>2 + Gy\<^sup>2\<close>.
\<close>

theorem applyEdgeDetection_clamped:
  assumes "valid img"
    and "use_openmp \<noteq> 0 \<longrightarrow> is_schedule (width img) (height img) sched"
    and "1 \<le> x" "x \<le> width img - 2" "1 \<le> y" "y \<le> height img - 2" "c \<in> {0, 1, 2}"
  shows "\<exists>out. applyEdgeDetection img use_openmp sched junk = Some out
           \<and> sample out x y c \<le> 255
           \<and> (65025 \<le> spec_energy img x y c \<longrightarrow> sample out x y c = 255)
           \<and> (spec_energy img x y c < 65025 \<longrightarrow>
                (sample out x y c)\<^sup>2 \<le> spec_energy img x y c
                \<and> spec_energy img x y c < (sample out x y c + 1)\<^sup>2)"
proof -
  obtain out where out: "applyEdgeDetection img use_openmp sched junk = Some out"
    and s: "sample out x y c = sobel_val img x y c"
    using sobel_sample [OF assms, of junk] by blast
  let ?sx = "conv img Gx x y c window" and ?sy = "conv img Gy x y c window"
  have e: "spec_energy img x y c = ?sx * ?sx + ?sy * ?sy"
    by (simp add: spec_energy_def conv_spec power2_eq_square)
  have v: "sample out x y c = magnitude ?sx ?sy" using s by (simp add: sobel_val_def)
  have "sample out x y c \<le> 255" using v magnitude_bounds(2) by simp
  moreover have "sample out x y c = 255" if "65025 \<le> spec_energy img x y c"
    using that magnitude_saturates [of ?sx ?sy] by (simp add: e v)
  moreover have "(sample out x y c)\<^sup>2 \<le> spec_energy img x y c
      \<and> spec_energy img x y c < (sample out x y c + 1)\<^sup>2" if "spec_energy img x y c < 65025"
    using that magnitude_root [of ?sx ?sy] by (simp add: e v power2_eq_square)
  ultimately show ?thesis using out by blast
qed

theorem applyEdgeDetection_clamped_witness:
  "\<exists>out. applyEdgeDetection \<lparr>width = 3, height = 3,
              data = [0, 0, 0, 0, 0, 0, 0, 0, 0,
                      0, 0, 0, 9, 9, 9, 255, 255, 255,
                      0, 0, 0, 0, 0, 0, 0, 0, 0]\<rparr> 1 [(1, 1)] (\<lambda>_. 7) = Some out
         \<and> sample out 1 1 0 = 255"
  using applyEdgeDetection_clamped [of "\<lparr>width = 3, height = 3,
              data = [0, 0, 0, 0, 0, 0, 0, 0, 0,
                      0, 0, 0, 9, 9, 9, 255, 255, 255,
                      0, 0, 0, 0, 0, 0, 0, 0, 0]\<rparr>" 1 "[(1, 1)]" 1 1 0 "\<lambda>_. 7"]
  by (auto simp add: valid_def is_schedule_def interior_def spec_energy_def spec_gradient_def
        spec_Kx_def spec_Ky_def sample_def)

text \<open>
  C6 states that a sequential and a parallel run on the same input give byte-identical
  output buffers, for both policies. On the interior they do, whatever the schedule
  (\<open>schedule_independent\<close>). But each run allocates its own scratch block and copies
  its unwritten border to the output, the defect of C1: on a white 3x3 image, with zeros
  in the scratch block of the sequential run and ones in that of the parallel run, the
  two outputs differ in every border byte.
\<close>

theorem sequential_parallel_differ_3x3:
  "applyBlur \<lparr>width = 3, height = 3, data = replicate 27 255\<rparr> 0 [(1, 1)] (\<lambda>_. 0) =
     Some \<lparr>width = 3, height = 3,
           data = [0, 0, 0, 0, 0, 0, 0, 0, 0,
                   0, 0, 0, 255, 255, 255, 0, 0, 0,
                   0, 0, 0, 0, 0, 0, 0, 0, 0]\<rparr>
   \<and> applyBlur \<lparr>width = 3, height = 3, data = replicate 27 255\<rparr> 1 [(1, 1)] (\<lambda>_. 1) =
     Some \<lparr>width = 3, height = 3,
           data = [1, 1, 1, 1, 1, 1, 1, 1, 1,
                   1, 1, 1, 255, 255, 255, 1, 1, 1,
                   1, 1, 1, 1, 1, 1, 1, 1, 1]\<rparr>
   \<and> applyEdgeDetection \<lparr>width = 3, height = 3, data = replicate 27 255\<rparr> 0 [(1, 1)] (\<lambda>_. 0) =
     Some \<lparr>width = 3, height = 3, data = replicate 27 0\<rparr>
   \<and> applyEdgeDetection \<lparr>width = 3, height = 3, data = replicate 27 255\<rparr> 1 [(1, 1)] (\<lambda>_. 1) =
     Some \<lparr>width = 3, height = 3,
           data = [1, 1, 1, 1, 1, 1, 1, 1, 1,
                   1, 1, 1, 0, 0, 0, 1, 1, 1,
                   1, 1, 1, 1, 1, 1, 1, 1, 1]\<rparr>"
  by code_simp

text \<open>
  C7 states that on a constant-colour buffer the Average policy applied twice gives the
  same as applied once, the unchanged image. By the defect of C1 it does not: a 3x3
  image of colour \<open>(10, 20, 30)\<close>, blurred with a scratch block of zeros, keeps its
  centre pixel and loses its border; blurred again, the centre becomes \<open>(1, 2, 3)\<close>.
\<close>

theorem blur_constant_not_idempotent_3x3:
  "applyBlur \<lparr>width = 3, height = 3,
              data = [10, 20, 30, 10, 20, 30, 10, 20, 30,
                      10, 20, 30, 10, 20, 30, 10, 20, 30,
                      10, 20, 30, 10, 20, 30, 10, 20, 30]\<rparr> 0 [] (\<lambda>_. 0) =
     Some \<lparr>width = 3, height = 3,
           data = [0, 0, 0, 0, 0, 0, 0, 0, 0,
                   0, 0, 0, 10, 20, 30, 0, 0, 0,
                   0, 0, 0, 0, 0, 0, 0, 0, 0]\<rparr>
   \<and> applyBlur \<lparr>width = 3, height = 3,
           data = [0, 0, 0, 0, 0, 0, 0, 0, 0,
                   0, 0, 0, 10, 20, 30, 0, 0, 0,
                   0, 0, 0, 0, 0, 0, 0, 0, 0]\<rparr> 0 [] (\<lambda>_. 0) =
     Some \<lparr>width = 3, height = 3,
           data = [0, 0, 0, 0, 0, 0, 0, 0, 0,
                   0, 0, 0, 1, 2, 3, 0, 0, 0,
                   0, 0, 0, 0, 0, 0, 0, 0, 0]\<rparr>"
  by code_simp

text \<open>
  C8. For every constant-colour buffer of valid shape with \<open>w \<ge> 3\<close> and \<open>h \<ge> 3\<close>,
  the Sobel policy stores 0 in every channel of every interior pixel.
\<close>

theorem applyEdgeDetection_constant_zero:
  assumes "constant_color img r g b" "valid img" "3 \<le> width img" "3 \<le> height img"
    and "use_openmp \<noteq> 0 \<longrightarrow> is_schedule (width img) (height img) sched"
    and "1 \<le> x" "x \<le> width img - 2" "1 \<le> y" "y \<le> height img - 2" "c \<in> {0, 1, 2}"
  shows "\<exists>out. applyEdgeDetection img use_openmp sched junk = Some out \<and> sample out x y c = 0"
  using sobel_sample [OF assms(2,5-10), of junk] sobel_val_constant [OF assms(1,2,6-10)]
  by auto

theorem applyEdgeDetection_constant_zero_witness:
  "\<exists>out. applyEdgeDetection \<lparr>width = 3, height = 3,
              data = [10, 20, 30, 10, 20, 30, 10, 20, 30,
                      10, 20, 30, 10, 20, 30, 10, 20, 30,
                      10, 20, 30, 10, 20, 30, 10, 20, 30]\<rparr> 1 [(1, 1)] (\<lambda>_. 7) = Some out
         \<and> sample out 1 1 2 = 0"
  using applyEdgeDetection_constant_zero [of "\<lparr>width = 3, height = 3,
              data = [10, 20, 30, 10, 20, 30, 10, 20, 30,
                      10, 20, 30, 10, 20, 30, 10, 20, 30,
                      10, 20, 30, 10, 20, 30, 10, 20, 30]\<rparr>" 10 20 30 1 "[(1, 1)]" 1 1 2 "\<lambda>_. 7"]
  by (auto simp add: constant_color_def valid_def is_schedule_def interior_def eval_nat_numeral)

text \<open>
  C9 states that every input file whose header token is not \<open>P6\<close>, or whose declared
  maximum sample value is not 255, ends the program fatally during decoding, without an
  output file. The code does this for the headers that \<^verbatim>\<open>fscanf\<close> can store
  (\<open>main_rejects_stored_bad_header\<close>: exit status 1, file system unchanged), not for
  all: \<^verbatim>\<open>%s\<close> without a field width writes a token of more than two characters past
  the end of \<^verbatim>\<open>char format[3]\<close>, and \<^verbatim>\<open>%d\<close> cannot store a declared maximum outside
  \<^verbatim>\<open>int\<close>. The theorem runs the program on a file with the token \<open>P6X\<close> and on a
  file that declares the maximum 4294967551: in both runs the behaviour is undefined
  before the check of the header is reached.
\<close>

theorem header_overrun_undefined:
  "main [''prog'', ''in.ppm'', ''out.ppm'', ''1'']
     \<lparr>files = (\<lambda>_. None)(''in.ppm'' \<mapsto>
         \<lparr>format = ''P6X'', hdr_width = 1, hdr_height = 1, maxColor = 255, payload = [1, 2, 3]\<rparr>),
       writable = (\<lambda>_. True)\<rparr>
     \<lparr>alloc1 = (\<lambda>_. 0), alloc2 = (\<lambda>_. 0), alloc3 = (\<lambda>_. 0), alloc4 = (\<lambda>_. 0), schedule = []\<rparr>
   = None
   \<and> main [''prog'', ''in.ppm'', ''out.ppm'', ''1'']
     \<lparr>files = (\<lambda>_. None)(''in.ppm'' \<mapsto>
         \<lparr>format = ''P6'', hdr_width = 1, hdr_height = 1, maxColor = 4294967551,
          payload = [1, 2, 3]\<rparr>),
       writable = (\<lambda>_. True)\<rparr>
     \<lparr>alloc1 = (\<lambda>_. 0), alloc2 = (\<lambda>_. 0), alloc3 = (\<lambda>_. 0), alloc4 = (\<lambda>_. 0), schedule = []\<rparr>
   = None"
  by (simp add: main_def readPPM_def fscanf_header_def int_ok_def)

text \<open>
  C10. With four arguments and a \<^verbatim>\<open>filter_type\<close> other than 1 and 2, no filter is
  applied: when the input decodes and the output can be opened, the program exits with
  status 0 and the output file holds the header and exactly the bytes of the decoded
  buffer.
\<close>

theorem main_unknown_filter_copies:
  assumes "length argv = 4" "atoi (argv ! 3) = Some filter_type"
    and "filter_type \<noteq> 1" "filter_type \<noteq> 2"
    and "readPPM fs (argv ! 1) (alloc3 rt) = Some (Inr img)"
    and "writable fs (argv ! 2)"
  shows "main argv fs rt =
     Some (0, fs\<lparr>files := (files fs)(argv ! 2 \<mapsto>
       \<lparr>format = ''P6'', hdr_width = width img, hdr_height = height img,
        maxColor = 255, payload = data img\<rparr>)\<rparr>)"
proof -
  obtain img1 where r1: "readPPM fs (argv ! 1) (alloc1 rt) = Some (Inr img1)"
    using readPPM_junk_independent [OF assms(5)] by blast
  have nf: "apply_filter filter_type i u s j = Some i" for i u s j
    using assms(3,4) by (simp add: apply_filter_def)
  have w: "writePPM fs (argv ! 2) img =
      Some (Inr (fs\<lparr>files := (files fs)(argv ! 2 \<mapsto>
          \<lparr>format = ''P6'', hdr_width = width img, hdr_height = height img,
           maxColor = MAX_COLOR, payload = data img\<rparr>)\<rparr>))"
    using writePPM_decoded [OF assms(5,6), of fs] assms(6) by simp
  show ?thesis
    using assms(1,2,5) r1 w by (simp add: main_def nf MAX_COLOR_def)
qed

theorem main_unknown_filter_copies_witness:
  "main [''prog'', ''in.ppm'', ''out.ppm'', ''3'']
     \<lparr>files = (\<lambda>_. None)(''in.ppm'' \<mapsto>
         \<lparr>format = ''P6'', hdr_width = 1, hdr_height = 1, maxColor = 255, payload = [1, 2, 3]\<rparr>),
       writable = (\<lambda>_. True)\<rparr>
     \<lparr>alloc1 = (\<lambda>_. 0), alloc2 = (\<lambda>_. 0), alloc3 = (\<lambda>_. 0), alloc4 = (\<lambda>_. 0), schedule = []\<rparr>
   = Some (0, \<lparr>files = (\<lambda>_. None)(''in.ppm'' \<mapsto>
         \<lparr>format = ''P6'', hdr_width = 1, hdr_height = 1, maxColor = 255, payload = [1, 2, 3]\<rparr>,
         ''out.ppm'' \<mapsto>
         \<lparr>format = ''P6'', hdr_width = 1, hdr_height = 1, maxColor = 255, payload = [1, 2, 3]\<rparr>),
       writable = (\<lambda>_. True)\<rparr>)"
  using main_unknown_filter_copies [of "[''prog'', ''in.ppm'', ''out.ppm'', ''3'']" 3
      "\<lparr>files = (\<lambda>_. None)(''in.ppm'' \<mapsto>
         \<lparr>format = ''P6'', hdr_width = 1, hdr_height = 1, maxColor = 255, payload = [1, 2, 3]\<rparr>),
       writable = (\<lambda>_. True)\<rparr>"
      "\<lparr>alloc1 = (\<lambda>_. 0), alloc2 = (\<lambda>_. 0), alloc3 = (\<lambda>_. 0), alloc4 = (\<lambda>_. 0), schedule = []\<rparr>"
      "\<lparr>width = 1, height = 1, data = [1, 2, 3]\<rparr>"]
  by (simp add: atoi_def isspace_def isdigit_def int_ok_def readPPM_def fscanf_header_def
      MAX_COLOR_def size3_def imul_def malloc_def fread_def)

end
